theory Spec2Isabelle
  imports Complex_Main "HOL-Library.Word"
begin

section \<open>JavaScript strings\<close>

text \<open>
  A JavaScript string is a sequence of 16-bit code units. \<open>ascii\<close> writes an ASCII
  literal as such a sequence, so that inputs can be read in the theorems below.
\<close>

type_synonym jschar = "16 word"
type_synonym jsstring = "jschar list"

definition ascii :: "string \<Rightarrow> jsstring" where
  "ascii s = map of_char s"

text \<open>\<open>\d\<close> in a regular expression without the unicode flag: the ten ASCII digits.\<close>

definition is_digit :: "jschar \<Rightarrow> bool" where
  "is_digit c \<longleftrightarrow> 0x30 \<le> c \<and> c \<le> 0x39"

definition digit_val :: "jschar \<Rightarrow> nat" where
  "digit_val c = unat c - 48"

text \<open>
  \<open>parseInt(s, 10)\<close> on a string of decimal digits, the only strings the captures of
  \<open>timeRegex\<close> can hold (lemma \<open>timeRegex_at_digits\<close> below).
\<close>

definition parseInt10 :: "jsstring \<Rightarrow> nat" where
  "parseInt10 s = foldl (\<lambda>a c. 10 * a + digit_val c) 0 s"

text \<open>\<open>s.padEnd(n, c)\<close> with a one-character filler, and \<open>s.slice(a, b)\<close> for \<open>0 \<le> a \<le> b\<close>.\<close>

definition padEnd :: "jsstring \<Rightarrow> nat \<Rightarrow> jschar \<Rightarrow> jsstring" where
  "padEnd s n c = s @ replicate (n - length s) c"

definition slice :: "jsstring \<Rightarrow> nat \<Rightarrow> nat \<Rightarrow> jsstring" where
  "slice s a b = drop a (take b s)"

text \<open>
  \<open>String.prototype.trim\<close> removes WhiteSpace and LineTerminator code units from both
  ends: TAB, LF, VT, FF, CR, SP, NBSP, U+1680, U+2000 to U+200A, U+2028, U+2029, U+202F,
  U+205F, U+3000 and U+FEFF.
\<close>

definition is_space :: "jschar \<Rightarrow> bool" where
  "is_space c \<longleftrightarrow>
     c = 0x09 \<or> c = 0x0A \<or> c = 0x0B \<or> c = 0x0C \<or> c = 0x0D \<or> c = 0x20 \<or> c = 0xA0 \<or>
     c = 0x1680 \<or> (0x2000 \<le> c \<and> c \<le> 0x200A) \<or> c = 0x2028 \<or> c = 0x2029 \<or>
     c = 0x202F \<or> c = 0x205F \<or> c = 0x3000 \<or> c = 0xFEFF"

definition trim :: "jsstring \<Rightarrow> jsstring" where
  "trim s = rev (dropWhile is_space (rev (dropWhile is_space s)))"

text \<open>\<open>s.split("\n")\<close>: the pieces between line feeds; the empty string gives one empty piece.\<close>

fun split_nl :: "jsstring \<Rightarrow> jsstring list" where
  "split_nl [] = [[]]"
| "split_nl (c # cs) =
     (if c = 0x0A then [] # split_nl cs
      else (case split_nl cs of [] \<Rightarrow> [[c]] | l # ls \<Rightarrow> (c # l) # ls))"

section \<open>The timestamp pattern\<close>

text \<open>
  \<^verbatim>\<open>timeRegex = /\[(\d{2}):(\d{2})(?:[.:](\d{2,3}))?\]/g\<close>.
  A match carries the three capture groups; the third is undefined (\<open>None\<close>) when the
  optional group did not take part.
\<close>

record regex_match =
  m1 :: jsstring
  m2 :: jsstring
  m3 :: "jsstring option"

definition is_sep :: "jschar \<Rightarrow> bool" where
  "is_sep c \<longleftrightarrow> c = 0x2E \<or> c = 0x3A"

text \<open>
  The end of the pattern, \<^verbatim>\<open>(?:[.:](\d{2,3}))?\]\<close>, in the order the backtracking
  matcher tries it: the group with three digits, the group with two digits, no group.
  Each returns the third capture and the input left after the closing bracket.
\<close>

fun frac3 :: "jsstring \<Rightarrow> (jsstring option \<times> jsstring) option" where
  "frac3 (p # a # b # c # r # rest) =
     (if is_sep p \<and> is_digit a \<and> is_digit b \<and> is_digit c \<and> r = 0x5D
      then Some (Some [a, b, c], rest) else None)"
| "frac3 _ = None"

fun frac2 :: "jsstring \<Rightarrow> (jsstring option \<times> jsstring) option" where
  "frac2 (p # a # b # r # rest) =
     (if is_sep p \<and> is_digit a \<and> is_digit b \<and> r = 0x5D
      then Some (Some [a, b], rest) else None)"
| "frac2 _ = None"

fun frac0 :: "jsstring \<Rightarrow> (jsstring option \<times> jsstring) option" where
  "frac0 (r # rest) = (if r = 0x5D then Some (None, rest) else None)"
| "frac0 _ = None"

definition timeRegex_tail :: "jsstring \<Rightarrow> (jsstring option \<times> jsstring) option" where
  "timeRegex_tail s =
     (case frac3 s of Some x \<Rightarrow> Some x
      | None \<Rightarrow> (case frac2 s of Some x \<Rightarrow> Some x | None \<Rightarrow> frac0 s))"

text \<open>A match of \<open>timeRegex\<close> that starts at the first code unit of the input.\<close>

fun timeRegex_at :: "jsstring \<Rightarrow> (regex_match \<times> jsstring) option" where
  "timeRegex_at (l # a # b # c # d # e # rest) =
     (if l = 0x5B \<and> is_digit a \<and> is_digit b \<and> c = 0x3A \<and> is_digit d \<and> is_digit e
      then (case timeRegex_tail rest of
              Some (f, rest') \<Rightarrow> Some (\<lparr>m1 = [a, b], m2 = [d, e], m3 = f\<rparr>, rest')
            | None \<Rightarrow> None)
      else None)"
| "timeRegex_at _ = None"

lemma timeRegex_tail_shorter:
  "timeRegex_tail s = Some (f, r) \<Longrightarrow> length r < length s"
  unfolding timeRegex_tail_def
  by (cases s rule: frac3.cases; cases s rule: frac2.cases; cases s rule: frac0.cases)
     (auto split: if_splits option.splits)

lemma timeRegex_at_shorter:
  "timeRegex_at s = Some (m, r) \<Longrightarrow> length r < length s"
  by (cases s rule: timeRegex_at.cases)
     (auto split: if_splits option.splits dest: timeRegex_tail_shorter)

text \<open>
  The loop \<^verbatim>\<open>while ((match = timeRegex.exec(line)) !== null)\<close>: with the global flag
  each call searches from \<open>lastIndex\<close>, the end of the previous match, for the leftmost
  match, and the failing call resets \<open>lastIndex\<close> to 0. \<open>exec_all\<close> lists the matches
  of that loop started with \<open>lastIndex = 0\<close>.
\<close>

function exec_all :: "jsstring \<Rightarrow> regex_match list" where
  "exec_all [] = []"
| "exec_all (c # cs) =
     (case timeRegex_at (c # cs) of
        Some (m, rest) \<Rightarrow> m # exec_all rest
      | None \<Rightarrow> exec_all cs)"
  by pat_completeness auto
termination
  by (relation "measure length") (auto dest: timeRegex_at_shorter)

text \<open>\<^verbatim>\<open>line.replace(timeRegex, "")\<close>: every match is deleted, everything else is kept.\<close>

function replace_timeRegex :: "jsstring \<Rightarrow> jsstring" where
  "replace_timeRegex [] = []"
| "replace_timeRegex (c # cs) =
     (case timeRegex_at (c # cs) of
        Some (m, rest) \<Rightarrow> replace_timeRegex rest
      | None \<Rightarrow> c # replace_timeRegex cs)"
  by pat_completeness auto
termination
  by (relation "measure length") (auto dest: timeRegex_at_shorter)

section \<open>parseLRC\<close>

record lyric =
  time :: int
  text' :: jsstring

text \<open>
  \<open>Math.round\<close> returns the integer closest to its argument, the larger one at a tie.
  The argument here is \<open>minutes * 60 + seconds + milliseconds / 1000\<close> with
  \<open>milliseconds < 1000\<close>; it is modelled as an exact real number. The double computed by
  the program differs from it by far less than the distance of any such value
  other than \<open>n + 1/2\<close> (which is exact in binary) to the next half-integer, so both
  round to the same integer.
\<close>

definition Math_round :: "real \<Rightarrow> int" where
  "Math_round x = \<lfloor>x + 1 / 2\<rfloor>"

text \<open>The body of the \<open>while\<close> loop: the rounded time of one match.\<close>

definition timestamp_of :: "regex_match \<Rightarrow> int" where
  "timestamp_of m =
     (let minutes = parseInt10 (m1 m);
          seconds = parseInt10 (m2 m);
          milliseconds =
            (case m3 m of
               Some f \<Rightarrow> if f \<noteq> [] then parseInt10 (slice (padEnd f 3 0x30) 0 3) else 0
             | None \<Rightarrow> 0);
          totalSeconds = of_nat minutes * 60 + of_nat seconds + of_nat milliseconds / 1000
      in Math_round totalSeconds)"

text \<open>
  The test \<^verbatim>\<open>/^\[(ar|ti|al|au|length|by|offset|re|ve|id|la):/i\<close>. Without the unicode
  flag, ignoring case compares code units after upper-casing, and a code unit above 127
  is never identified with an ASCII one; against the ASCII letters of the pattern this
  is the comparison of \<open>upper\<close> images.
\<close>

definition upper :: "jschar \<Rightarrow> jschar" where
  "upper c = (if 0x61 \<le> c \<and> c \<le> 0x7A then c - 0x20 else c)"

definition metadata_tags :: "string list" where
  "metadata_tags =
     [''ar'', ''ti'', ''al'', ''au'', ''length'', ''by'', ''offset'', ''re'', ''ve'', ''id'', ''la'']"

definition starts_with_ci :: "jsstring \<Rightarrow> jsstring \<Rightarrow> bool" where
  "starts_with_ci pat s \<longleftrightarrow>
     length pat \<le> length s \<and> map upper (take (length pat) s) = map upper pat"

definition is_metadata :: "jsstring \<Rightarrow> bool" where
  "is_metadata line \<longleftrightarrow>
     list_ex (\<lambda>tag. starts_with_ci (ascii (''['' @ tag @ '':'')) line) metadata_tags"

text \<open>The placeholder \<open>U+2022 U+2022 U+2022\<close> and the music note \<open>U+266A\<close>.\<close>

definition dots :: jsstring where
  "dots = [0x2022, 0x2022, 0x2022]"

definition music_note :: jsstring where
  "music_note = [0x266A]"

text \<open>The body of the \<open>for\<close> loop over the lines: the entries one line pushes.\<close>

definition line_text :: "jsstring \<Rightarrow> jsstring" where
  "line_text line =
     (let textPart = trim (replace_timeRegex line)
      in if textPart = [] then dots else textPart)"

definition line_entries :: "jsstring \<Rightarrow> lyric list" where
  "line_entries line =
     (if is_metadata line then []
      else if trim line = [] then []
      else
        let timestamps = map timestamp_of (exec_all line);
            textPart = line_text line
        in map (\<lambda>t. \<lparr>time = t, text' = textPart\<rparr>) timestamps)"

text \<open>The array \<open>lyrics\<close> when the loop over the lines ends.\<close>

definition lyrics_of :: "jsstring \<Rightarrow> lyric list" where
  "lyrics_of lrcContent = concat (map line_entries (split_nl lrcContent))"

text \<open>
  \<^verbatim>\<open>lyrics.sort((a, b) => a.time - b.time)\<close> is the stable sort by \<open>time\<close>
  (\<open>Array.prototype.sort\<close> is stable since ECMAScript 2019), which \<open>sort_key time\<close>
  computes. Then the note is put in front when the first time is above 2.
\<close>

definition parseLRC :: "jsstring \<Rightarrow> lyric list" where
  "parseLRC lrcContent =
     (let lyrics = sort_key time (lyrics_of lrcContent)
      in if length lyrics > 0 \<and> time (lyrics ! 0) > 2
         then \<lparr>time = 0, text' = music_note\<rparr> # lyrics
         else lyrics)"

section \<open>The loader\<close>

text \<open>
  \<^verbatim>\<open>this.cache = {}\<close> is an ordinary object: reading \<^verbatim>\<open>this.cache[lyricsKey]\<close>
  finds the properties stored by the loader and, for any other name, the properties
  inherited from \<open>Object.prototype\<close>. Those are built-in functions, each with its
  \<open>length\<close>, and the accessor \<^verbatim>\<open>__proto__\<close>, which reads as \<open>Object.prototype\<close>
  itself (an object without \<open>length\<close>). Every such value is an object, hence truthy.
\<close>

datatype js_value =
    Lyrics "lyric list"
  | BuiltinFunction nat
  | ObjectPrototype

definition Object_prototype :: "jsstring \<rightharpoonup> js_value" where
  "Object_prototype = map_of
     [(ascii ''constructor'', BuiltinFunction 1),
      (ascii ''__defineGetter__'', BuiltinFunction 2),
      (ascii ''__defineSetter__'', BuiltinFunction 2),
      (ascii ''hasOwnProperty'', BuiltinFunction 1),
      (ascii ''__lookupGetter__'', BuiltinFunction 1),
      (ascii ''__lookupSetter__'', BuiltinFunction 1),
      (ascii ''isPrototypeOf'', BuiltinFunction 1),
      (ascii ''propertyIsEnumerable'', BuiltinFunction 1),
      (ascii ''toString'', BuiltinFunction 0),
      (ascii ''valueOf'', BuiltinFunction 0),
      (ascii ''__proto__'', ObjectPrototype),
      (ascii ''toLocaleString'', BuiltinFunction 0)]"

text \<open>\<open>v.length\<close>; \<open>None\<close> is \<open>undefined\<close>, for which \<^verbatim>\<open>undefined > 0\<close> is false.\<close>

fun value_length :: "js_value \<Rightarrow> nat option" where
  "value_length (Lyrics xs) = Some (length xs)"
| "value_length (BuiltinFunction n) = Some n"
| "value_length ObjectPrototype = None"

record LRCLoader =
  basePath :: jsstring
  cache :: "jsstring \<rightharpoonup> lyric list"

definition new_LRCLoader :: "jsstring \<Rightarrow> LRCLoader" where
  "new_LRCLoader bp = \<lparr>basePath = bp, cache = Map.empty\<rparr>"

text \<open>The global instance, built with the default base path.\<close>

definition lrcLoader :: LRCLoader where
  "lrcLoader = new_LRCLoader (ascii ''./assets/lyrics/'')"

definition cache_get :: "LRCLoader \<Rightarrow> jsstring \<Rightarrow> js_value option" where
  "cache_get l k = (case cache l k of Some xs \<Rightarrow> Some (Lyrics xs) | None \<Rightarrow> Object_prototype k)"

text \<open>
  A value thrown inside the \<^verbatim>\<open>try\<close> block, as far as the \<^verbatim>\<open>catch\<close> block looks
  at it. The block evaluates \<^verbatim>\<open>error.message\<close> before it logs. Reading a property of
  \<open>undefined\<close> or \<open>null\<close> throws a TypeError; reading it from any other value gives
  something to log, unless \<open>message\<close> is an accessor (or the value a proxy) that throws
  in its turn.
\<close>

datatype thrown =
    ThrownNullish
  | ThrownReadable
  | ThrownUnreadable

datatype js_error =
    TypeError
  | MessageReadError

text \<open>
  What \<^verbatim>\<open>await fetch(url)\<close> followed by \<^verbatim>\<open>await response.text()\<close> can do: the
  request is rejected with some value, the response is not ok, the response is ok and
  its text is read, or reading the text is rejected with some value. A response that
  cannot be used at all (no \<open>ok\<close> to read, no \<open>text\<close> to call, a text that is not a
  string) makes the \<^verbatim>\<open>try\<close> block throw a TypeError object, which is a rejection
  with a readable value. The collaborator is a parameter of the model.
\<close>

datatype fetch_outcome =
    FetchRejects thrown
  | NotOk
  | OkText jsstring
  | OkTextRejects thrown

text \<open>
  How the promise of an \<^verbatim>\<open>async\<close> method settles: resolved with a value (\<open>None\<close> is
  \<open>null\<close>), or rejected with an error.
\<close>

datatype promise_result =
    Resolved "js_value option"
  | Rejected js_error

text \<open>The effects of a call that are visible outside the loader, in the order they happen.\<close>

datatype log_message =
    NoLRCFound jsstring
  | LoadedLRC jsstring nat
  | ErrorLoading jsstring

datatype event =
    Fetch jsstring
  | ConsoleLog log_message
  | FallbackLookup jsstring

text \<open>
  The \<^verbatim>\<open>catch\<close> block of \<open>loadLRC\<close>, entered after the fetch of \<open>url\<close> was started.
  The arguments of \<^verbatim>\<open>console.log\<close> are evaluated before the call: when reading
  \<^verbatim>\<open>error.message\<close> throws, nothing is logged and the error leaves \<open>loadLRC\<close>, whose
  promise is rejected with it.
\<close>

definition catch_block ::
  "thrown \<Rightarrow> LRCLoader \<Rightarrow> jsstring \<Rightarrow> jsstring
     \<Rightarrow> promise_result \<times> LRCLoader \<times> event list" where
  "catch_block error l lyricsKey url =
     (case error of
        ThrownReadable \<Rightarrow> (Resolved None, l, [Fetch url, ConsoleLog (ErrorLoading lyricsKey)])
      | ThrownNullish \<Rightarrow> (Rejected TypeError, l, [Fetch url])
      | ThrownUnreadable \<Rightarrow> (Rejected MessageReadError, l, [Fetch url]))"

definition loadLRC ::
  "(jsstring \<Rightarrow> fetch_outcome) \<Rightarrow> LRCLoader \<Rightarrow> jsstring
     \<Rightarrow> promise_result \<times> LRCLoader \<times> event list" where
  "loadLRC fetch l lyricsKey =
     (case cache_get l lyricsKey of
        Some v \<Rightarrow> (Resolved (Some v), l, [])
      | None \<Rightarrow>
          let url = basePath l @ lyricsKey @ ascii ''.lrc'' in
          (case fetch url of
             FetchRejects error \<Rightarrow> catch_block error l lyricsKey url
           | NotOk \<Rightarrow> (Resolved None, l, [Fetch url, ConsoleLog (NoLRCFound lyricsKey)])
           | OkTextRejects error \<Rightarrow> catch_block error l lyricsKey url
           | OkText lrcContent \<Rightarrow>
               let lyrics = parseLRC lrcContent in
               if length lyrics > 0
               then (Resolved (Some (Lyrics lyrics)),
                     l\<lparr>cache := (cache l)(lyricsKey \<mapsto> lyrics)\<rparr>,
                     [Fetch url, ConsoleLog (LoadedLRC lyricsKey (length lyrics))])
               else (Resolved None, l, [Fetch url])))"

text \<open>The test \<^verbatim>\<open>lrcLyrics && lrcLyrics.length > 0\<close>; \<open>None\<close> is \<open>null\<close>.\<close>

definition has_positive_length :: "js_value option \<Rightarrow> bool" where
  "has_positive_length r \<longleftrightarrow>
     (case r of
        None \<Rightarrow> False
      | Some v \<Rightarrow> (case value_length v of None \<Rightarrow> False | Some n \<Rightarrow> n > 0))"

text \<open>
  Modelled from the spec: the fallback table \<open>lyricsData\<close> is defined in another script
  of the page (lyrics.js). It maps a key to an object exposing a \<open>lines\<close> field already
  shaped as a sequence of lyric lines; the whole table may be undefined (\<open>None\<close>), a key
  may be missing, and an entry may lack \<open>lines\<close>. It is a parameter of \<open>getLyrics\<close>.
\<close>

record song_lyrics =
  lines :: "lyric list option"

type_synonym lyrics_table = "(jsstring \<rightharpoonup> song_lyrics) option"

text \<open>\<^verbatim>\<open>lyricsData[lyricsKey]?.lines\<close> on a defined table.\<close>

definition table_lines :: "(jsstring \<rightharpoonup> song_lyrics) \<Rightarrow> jsstring \<Rightarrow> lyric list option" where
  "table_lines table lyricsKey =
     (case table lyricsKey of None \<Rightarrow> None | Some entry \<Rightarrow> lines entry)"

text \<open>
  The key is \<open>None\<close> for \<open>null\<close>; \<open>null\<close> and the empty string are the falsy keys.
  \<^verbatim>\<open>await this.loadLRC(lyricsKey)\<close> stands outside any \<^verbatim>\<open>try\<close>: when the promise of
  \<open>loadLRC\<close> is rejected, so is the promise of \<open>getLyrics\<close>, with the same error.
\<close>

definition getLyrics ::
  "(jsstring \<Rightarrow> fetch_outcome) \<Rightarrow> lyrics_table \<Rightarrow> LRCLoader \<Rightarrow> jsstring option
     \<Rightarrow> promise_result \<times> LRCLoader \<times> event list" where
  "getLyrics fetch lyricsData l lyricsKey =
     (case lyricsKey of
        None \<Rightarrow> (Resolved None, l, [])
      | Some k \<Rightarrow>
          if k = [] then (Resolved None, l, [])
          else
            (case loadLRC fetch l k of
               (Rejected e, l', evs) \<Rightarrow> (Rejected e, l', evs)
             | (Resolved lrcLyrics, l', evs) \<Rightarrow>
                 if has_positive_length lrcLyrics then (Resolved lrcLyrics, l', evs)
                 else
                   (case lyricsData of
                      None \<Rightarrow> (Resolved None, l', evs)
                    | Some table \<Rightarrow>
                        (Resolved (map_option Lyrics (table_lines table k)), l',
                         evs @ [FallbackLookup k]))))"

text \<open>The URLs passed to the fetch collaborator during a call.\<close>

fun fetch_calls :: "event list \<Rightarrow> jsstring list" where
  "fetch_calls [] = []"
| "fetch_calls (Fetch url # evs) = url # fetch_calls evs"
| "fetch_calls (_ # evs) = fetch_calls evs"

text \<open>
  The loader states that calls of \<open>loadLRC\<close> and \<open>getLyrics\<close> can produce from a
  new loader, whatever the collaborators answer from call to call.
\<close>

inductive reachable :: "LRCLoader \<Rightarrow> bool" where
  new: "reachable (new_LRCLoader bp)"
| loadLRC: "reachable l \<Longrightarrow> reachable (fst (snd (loadLRC fetch l k)))"
| getLyrics: "reachable l \<Longrightarrow> reachable (fst (snd (getLyrics fetch lyricsData l key)))"

section \<open>Timestamp tokens as the specification writes them\<close>

text \<open>
  The specification describes a token by its numbers: minutes \<open>MM\<close> and seconds \<open>SS\<close>
  written with two digits, and an optional fraction of two or three digits after a
  \<open>.\<close> or a \<open>:\<close>. The definitions below write such a token out (\<open>spec_token\<close>) and
  give the time the specification assigns to it (\<open>spec_time\<close>): the milliseconds are
  ten times a two-digit fraction, or a three-digit fraction itself, and the total is
  rounded to the nearest second, a half going up, here in whole milliseconds. They are
  compared with what the code computes in the theorems of C2, C3 and C6.
\<close>

definition digit_char :: "nat \<Rightarrow> jschar" where
  "digit_char d = of_nat (48 + d)"

definition two_digits :: "nat \<Rightarrow> jsstring" where
  "two_digits n = [digit_char (n div 10), digit_char (n mod 10)]"

definition three_digits :: "nat \<Rightarrow> jsstring" where
  "three_digits n = [digit_char (n div 100), digit_char (n div 10 mod 10), digit_char (n mod 10)]"

datatype fraction = NoFraction | TwoDigits jschar nat | ThreeDigits jschar nat

fun fraction_text :: "fraction \<Rightarrow> jsstring" where
  "fraction_text NoFraction = []"
| "fraction_text (TwoDigits p ff) = p # two_digits ff"
| "fraction_text (ThreeDigits p fff) = p # three_digits fff"

fun wf_fraction :: "fraction \<Rightarrow> bool" where
  "wf_fraction NoFraction \<longleftrightarrow> True"
| "wf_fraction (TwoDigits p ff) \<longleftrightarrow> is_sep p \<and> ff < 100"
| "wf_fraction (ThreeDigits p fff) \<longleftrightarrow> is_sep p \<and> fff < 1000"

fun spec_ms :: "fraction \<Rightarrow> nat" where
  "spec_ms NoFraction = 0"
| "spec_ms (TwoDigits p ff) = ff * 10"
| "spec_ms (ThreeDigits p fff) = fff"

definition spec_token :: "nat \<Rightarrow> nat \<Rightarrow> fraction \<Rightarrow> jsstring" where
  "spec_token MM SS fr = [0x5B] @ two_digits MM @ [0x3A] @ two_digits SS @ fraction_text fr @ [0x5D]"

definition spec_time :: "nat \<Rightarrow> nat \<Rightarrow> fraction \<Rightarrow> int" where
  "spec_time MM SS fr = int (((MM * 60 + SS) * 1000 + spec_ms fr + 500) div 1000)"

fun spec_capture :: "fraction \<Rightarrow> jsstring option" where
  "spec_capture NoFraction = None"
| "spec_capture (TwoDigits p ff) = Some (two_digits ff)"
| "spec_capture (ThreeDigits p fff) = Some (three_digits fff)"

text \<open>A token with a fraction of a single digit, \<open>[MM:SS.f]\<close>.\<close>

definition one_digit_token :: "nat \<Rightarrow> nat \<Rightarrow> jschar \<Rightarrow> nat \<Rightarrow> jsstring" where
  "one_digit_token MM SS p d =
     [0x5B] @ two_digits MM @ [0x3A] @ two_digits SS @ [p, digit_char d] @ [0x5D]"

section \<open>Properties of the timestamp pattern\<close>

subsection \<open>What a match looks like\<close>

lemma is_digit_neq: "is_digit a \<Longrightarrow> a \<noteq> 0x5B \<and> a \<noteq> 0x5D \<and> a \<noteq> 0x3A \<and> a \<noteq> 0x2E"
  by (auto simp: is_digit_def)

lemma is_sep_neq: "is_sep p \<Longrightarrow> p \<noteq> 0x5B \<and> p \<noteq> 0x5D \<and> \<not> is_digit p"
  by (auto simp: is_sep_def is_digit_def)

lemma frac3_SomeD:
  "frac3 t = Some (f, r) \<Longrightarrow>
     \<exists>p x y z. t = p # x # y # z # 0x5D # r \<and> f = Some [x, y, z] \<and>
       is_sep p \<and> is_digit x \<and> is_digit y \<and> is_digit z"
  by (cases t rule: frac3.cases) (auto split: if_splits)

lemma frac2_SomeD:
  "frac2 t = Some (f, r) \<Longrightarrow>
     \<exists>p x y. t = p # x # y # 0x5D # r \<and> f = Some [x, y] \<and> is_sep p \<and> is_digit x \<and> is_digit y"
  by (cases t rule: frac2.cases) (auto split: if_splits)

lemma frac0_SomeD: "frac0 t = Some (f, r) \<Longrightarrow> t = 0x5D # r \<and> f = None"
  by (cases t rule: frac0.cases) (auto split: if_splits)

lemma frac3_no_sep: "\<not> is_sep p \<Longrightarrow> frac3 (p # r) = None"
  by (cases "p # r" rule: frac3.cases) auto

lemma frac2_no_sep: "\<not> is_sep p \<Longrightarrow> frac2 (p # r) = None"
  by (cases "p # r" rule: frac2.cases) auto

lemma frac3_two_digits: "frac3 (p # x # y # 0x5D # r) = None"
  by (cases r) (auto simp: is_digit_def)

lemma timeRegex_tail_SomeD:
  "timeRegex_tail t = Some (f, r) \<Longrightarrow>
     (\<exists>p x y z. t = p # x # y # z # 0x5D # r \<and> f = Some [x, y, z] \<and>
        is_sep p \<and> is_digit x \<and> is_digit y \<and> is_digit z) \<or>
     (\<exists>p x y. t = p # x # y # 0x5D # r \<and> f = Some [x, y] \<and> is_sep p \<and> is_digit x \<and> is_digit y) \<or>
     (t = 0x5D # r \<and> f = None)"
  unfolding timeRegex_tail_def
  by (auto split: option.splits dest: frac3_SomeD frac2_SomeD frac0_SomeD)

lemma timeRegex_tail_3:
  "is_sep p \<Longrightarrow> is_digit x \<Longrightarrow> is_digit y \<Longrightarrow> is_digit z \<Longrightarrow>
     timeRegex_tail (p # x # y # z # 0x5D # r) = Some (Some [x, y, z], r)"
  by (simp add: timeRegex_tail_def)

lemma timeRegex_tail_2:
  "is_sep p \<Longrightarrow> is_digit x \<Longrightarrow> is_digit y \<Longrightarrow>
     timeRegex_tail (p # x # y # 0x5D # r) = Some (Some [x, y], r)"
  by (simp add: timeRegex_tail_def frac3_two_digits)

lemma timeRegex_tail_0: "timeRegex_tail (0x5D # r) = Some (None, r)"
  by (simp add: timeRegex_tail_def frac3_no_sep frac2_no_sep is_sep_def)

lemma timeRegex_at_SomeD:
  "timeRegex_at s = Some (m, r) \<Longrightarrow>
     \<exists>a b c d t. s = 0x5B # a # b # 0x3A # c # d # t \<and>
       is_digit a \<and> is_digit b \<and> is_digit c \<and> is_digit d \<and>
       m1 m = [a, b] \<and> m2 m = [c, d] \<and> timeRegex_tail t = Some (m3 m, r)"
  by (cases s rule: timeRegex_at.cases) (auto split: if_splits option.splits)

lemma timeRegex_at_token:
  "is_digit a \<Longrightarrow> is_digit b \<Longrightarrow> is_digit c \<Longrightarrow> is_digit d \<Longrightarrow>
   timeRegex_tail t = Some (f, r) \<Longrightarrow>
     timeRegex_at (0x5B # a # b # 0x3A # c # d # t) = Some (\<lparr>m1 = [a, b], m2 = [c, d], m3 = f\<rparr>, r)"
  by simp


text \<open>The captures of a match are strings of two, or two or three, decimal digits.\<close>

lemma timeRegex_at_digits:
  assumes "timeRegex_at s = Some (m, r)"
  shows "length (m1 m) = 2 \<and> list_all is_digit (m1 m) \<and>
         length (m2 m) = 2 \<and> list_all is_digit (m2 m) \<and>
         (case m3 m of
            None \<Rightarrow> True
          | Some f \<Rightarrow> (length f = 2 \<or> length f = 3) \<and> list_all is_digit f)"
proof -
  from timeRegex_at_SomeD [OF assms] obtain a b c d t where
    dg: "is_digit a" "is_digit b" "is_digit c" "is_digit d" and
    m: "m1 m = [a, b]" "m2 m = [c, d]" and
    t: "timeRegex_tail t = Some (m3 m, r)"
    by blast
  from timeRegex_tail_SomeD [OF t]
  have "case m3 m of
          None \<Rightarrow> True
        | Some f \<Rightarrow> (length f = 2 \<or> length f = 3) \<and> list_all is_digit f"
    by auto
  with dg m show ?thesis by simp
qed

subsection \<open>A match never reaches across an opening bracket\<close>

text \<open>
  The text a match consumes starts with an opening bracket and holds no other one. So
  the matches found in a line up to an opening bracket do not depend on what follows
  it, and scanning and replacing both split at any opening bracket.
\<close>

lemma timeRegex_at_consumed:
  assumes "timeRegex_at s = Some (m, r)"
  shows "\<exists>tok. s = 0x5B # tok @ r \<and> 0x5B \<notin> set tok \<and>
           (\<forall>r'. timeRegex_at (0x5B # tok @ r') = Some (m, r'))"
proof -
  from timeRegex_at_SomeD [OF assms] obtain a b c d t where
    s: "s = 0x5B # a # b # 0x3A # c # d # t" and
    dg: "is_digit a" "is_digit b" "is_digit c" "is_digit d" and
    m: "m1 m = [a, b]" "m2 m = [c, d]" and
    t: "timeRegex_tail t = Some (m3 m, r)"
    by blast
  have m_eq: "m = \<lparr>m1 = [a, b], m2 = [c, d], m3 = m3 m\<rparr>"
    using m by (cases m) simp
  from timeRegex_tail_SomeD [OF t] obtain tl where
    tl: "t = tl @ r" "0x5B \<notin> set tl" "\<forall>r'. timeRegex_tail (tl @ r') = Some (m3 m, r')"
  proof (elim disjE exE conjE)
    fix p x y z
    assume h: "t = p # x # y # z # 0x5D # r" "m3 m = Some [x, y, z]"
      "is_sep p" "is_digit x" "is_digit y" "is_digit z"
    show thesis
    proof (rule that [of "[p, x, y, z, 0x5D]"])
      show "t = [p, x, y, z, 0x5D] @ r" using h by simp
      show "0x5B \<notin> set [p, x, y, z, 0x5D]"
        using h is_digit_neq is_sep_neq by auto
      show "\<forall>r'. timeRegex_tail ([p, x, y, z, 0x5D] @ r') = Some (m3 m, r')"
        using h by (simp add: timeRegex_tail_3)
    qed
  next
    fix p x y
    assume h: "t = p # x # y # 0x5D # r" "m3 m = Some [x, y]"
      "is_sep p" "is_digit x" "is_digit y"
    show thesis
    proof (rule that [of "[p, x, y, 0x5D]"])
      show "t = [p, x, y, 0x5D] @ r" using h by simp
      show "0x5B \<notin> set [p, x, y, 0x5D]"
        using h is_digit_neq is_sep_neq by auto
      show "\<forall>r'. timeRegex_tail ([p, x, y, 0x5D] @ r') = Some (m3 m, r')"
        using h by (simp add: timeRegex_tail_2)
    qed
  next
    assume h: "t = 0x5D # r" "m3 m = None"
    show thesis
    proof (rule that [of "[0x5D]"])
      show "t = [0x5D] @ r" using h by simp
      show "0x5B \<notin> set [0x5D :: jschar]" by simp
      show "\<forall>r'. timeRegex_tail ([0x5D] @ r') = Some (m3 m, r')"
        using h by (simp add: timeRegex_tail_0)
    qed
  qed
  let ?tok = "a # b # 0x3A # c # d # tl"
  have "s = 0x5B # ?tok @ r"
    using s tl(1) by simp
  moreover have "0x5B \<notin> set ?tok"
    using dg tl(2) is_digit_neq by auto
  moreover have "\<forall>r'. timeRegex_at (0x5B # ?tok @ r') = Some (m, r')"
  proof
    fix r'
    have "timeRegex_at (0x5B # a # b # 0x3A # c # d # (tl @ r'))
            = Some (\<lparr>m1 = [a, b], m2 = [c, d], m3 = m3 m\<rparr>, r')"
      using dg tl(3) by (intro timeRegex_at_token) simp_all
    then show "timeRegex_at (0x5B # ?tok @ r') = Some (m, r')"
      using m_eq by simp
  qed
  ultimately show ?thesis by blast
qed

lemma timeRegex_at_append_Some:
  assumes "timeRegex_at u = Some (m, r)"
  shows "timeRegex_at (u @ s) = Some (m, r @ s)"
proof -
  from timeRegex_at_consumed [OF assms] obtain tok where
    "u = 0x5B # tok @ r" and "\<forall>r'. timeRegex_at (0x5B # tok @ r') = Some (m, r')"
    by blast
  then show ?thesis by simp
qed

lemma timeRegex_at_not_bracket: "c \<noteq> 0x5B \<Longrightarrow> timeRegex_at (c # s) = None"
  by (cases "timeRegex_at (c # s)") (auto dest: timeRegex_at_SomeD)

lemma timeRegex_at_append_None:
  assumes "timeRegex_at u = None" and "u \<noteq> []"
  shows "timeRegex_at (u @ 0x5B # s) = None"
proof (cases "timeRegex_at (u @ 0x5B # s)")
  case None
  then show ?thesis .
next
  case (Some mr)
  obtain m r where mr: "mr = (m, r)" by (cases mr)
  from timeRegex_at_consumed [OF Some [unfolded mr]] obtain tok where
    eq: "u @ 0x5B # s = 0x5B # tok @ r" and nb: "0x5B \<notin> set tok" and
    all: "\<forall>r'. timeRegex_at (0x5B # tok @ r') = Some (m, r')"
    by blast
  from assms(2) eq obtain u' where u: "u = 0x5B # u'" and eq': "u' @ 0x5B # s = tok @ r"
    by (cases u) auto
  from eq' obtain us where
    "(u' = tok @ us \<and> us @ 0x5B # s = r) \<or> (u' @ us = tok \<and> 0x5B # s = us @ r)"
    by (auto simp: append_eq_append_conv2)
  then have False
  proof
    assume "u' = tok @ us \<and> us @ 0x5B # s = r"
    then have "timeRegex_at u = Some (m, us)"
      using all u by simp
    with assms(1) show False by simp
  next
    assume h: "u' @ us = tok \<and> 0x5B # s = us @ r"
    show False
    proof (cases us)
      case Nil
      with h have "timeRegex_at u = Some (m, [])"
        using all [rule_format, of "[]"] u by simp
      with assms(1) show False by simp
    next
      case (Cons x xs)
      with h have "0x5B \<in> set tok" by auto
      with nb show False by simp
    qed
  qed
  then show ?thesis ..
qed

lemma exec_all_append_aux:
  assumes v: "v = 0x5B # s"
  shows "exec_all (u @ v) = exec_all u @ exec_all v"
proof (induction u rule: exec_all.induct)
  case 1
  show ?case by simp
next
  case (2 c cs)
  show ?case
  proof (cases "timeRegex_at (c # cs)")
    case None
    have "timeRegex_at ((c # cs) @ 0x5B # s) = None"
      using None by (rule timeRegex_at_append_None) simp
    then have "timeRegex_at (c # cs @ v) = None"
      by (simp add: v)
    then have "exec_all ((c # cs) @ v) = exec_all (cs @ v)"
      by simp
    moreover have "exec_all (cs @ v) = exec_all cs @ exec_all v"
      using None "2.IH" by simp
    moreover have "exec_all (c # cs) = exec_all cs"
      using None by simp
    ultimately show ?thesis by simp
  next
    case (Some mr)
    obtain m r where mr: "mr = (m, r)" by (cases mr)
    have "timeRegex_at (c # cs) = Some (m, r)"
      using Some mr by simp
    then have "timeRegex_at ((c # cs) @ v) = Some (m, r @ v)"
      by (rule timeRegex_at_append_Some)
    then have "exec_all ((c # cs) @ v) = m # exec_all (r @ v)"
      by simp
    moreover have "exec_all (r @ v) = exec_all r @ exec_all v"
      using Some mr "2.IH" by simp
    moreover have "exec_all (c # cs) = m # exec_all r"
      using Some mr by simp
    ultimately show ?thesis by simp
  qed
qed

lemma exec_all_append:
  "exec_all (u @ 0x5B # s) = exec_all u @ exec_all (0x5B # s)"
  by (rule exec_all_append_aux) simp

lemma replace_timeRegex_append_aux:
  assumes v: "v = 0x5B # s"
  shows "replace_timeRegex (u @ v) = replace_timeRegex u @ replace_timeRegex v"
proof (induction u rule: replace_timeRegex.induct)
  case 1
  show ?case by simp
next
  case (2 c cs)
  show ?case
  proof (cases "timeRegex_at (c # cs)")
    case None
    have "timeRegex_at ((c # cs) @ 0x5B # s) = None"
      using None by (rule timeRegex_at_append_None) simp
    then have "timeRegex_at (c # cs @ v) = None"
      by (simp add: v)
    then have "replace_timeRegex ((c # cs) @ v) = c # replace_timeRegex (cs @ v)"
      by simp
    moreover have "replace_timeRegex (cs @ v) = replace_timeRegex cs @ replace_timeRegex v"
      using None "2.IH" by simp
    moreover have "replace_timeRegex (c # cs) = c # replace_timeRegex cs"
      using None by simp
    ultimately show ?thesis by simp
  next
    case (Some mr)
    obtain m r where mr: "mr = (m, r)" by (cases mr)
    have "timeRegex_at (c # cs) = Some (m, r)"
      using Some mr by simp
    then have "timeRegex_at ((c # cs) @ v) = Some (m, r @ v)"
      by (rule timeRegex_at_append_Some)
    then have "replace_timeRegex ((c # cs) @ v) = replace_timeRegex (r @ v)"
      by simp
    moreover have "replace_timeRegex (r @ v) = replace_timeRegex r @ replace_timeRegex v"
      using Some mr "2.IH" by simp
    moreover have "replace_timeRegex (c # cs) = replace_timeRegex r"
      using Some mr by simp
    ultimately show ?thesis by simp
  qed
qed

lemma replace_timeRegex_append:
  "replace_timeRegex (u @ 0x5B # s) = replace_timeRegex u @ replace_timeRegex (0x5B # s)"
  by (rule replace_timeRegex_append_aux) simp

subsection \<open>The time of a match\<close>

lemma digit_val_less: "is_digit a \<Longrightarrow> digit_val a < 10"
  unfolding is_digit_def digit_val_def word_le_nat_alt by auto

lemma parseInt10_two: "parseInt10 [a, b] = 10 * digit_val a + digit_val b"
  by (simp add: parseInt10_def)

lemma parseInt10_three: "parseInt10 [a, b, c] = 100 * digit_val a + 10 * digit_val b + digit_val c"
  by (simp add: parseInt10_def)

lemma Math_round_nearest:
  "Math_round x = n \<longleftrightarrow> real_of_int n - 1 / 2 \<le> x \<and> x < real_of_int n + 1 / 2"
  unfolding Math_round_def floor_eq_iff by auto

lemma Math_round_seconds:
  assumes "ms < 1000"
  shows "Math_round (real m * 60 + real s + real ms / 1000)
           = int (m * 60 + s) + (if 500 \<le> ms then 1 else 0)"
  unfolding Math_round_nearest using assms by (auto simp: field_simps)

lemma timestamp_of_plain:
  "timestamp_of \<lparr>m1 = [a, b], m2 = [c, d], m3 = None\<rparr>
     = Math_round (real (10 * digit_val a + digit_val b) * 60
                   + real (10 * digit_val c + digit_val d) + real 0 / 1000)"
  by (simp add: timestamp_of_def parseInt10_two)

lemma timestamp_of_two:
  "timestamp_of \<lparr>m1 = [a, b], m2 = [c, d], m3 = Some [e, f]\<rparr>
     = Math_round (real (10 * digit_val a + digit_val b) * 60
                   + real (10 * digit_val c + digit_val d)
                   + real (10 * (10 * digit_val e + digit_val f)) / 1000)"
  by (simp add: timestamp_of_def parseInt10_two parseInt10_three padEnd_def slice_def digit_val_def)

lemma timestamp_of_three:
  "timestamp_of \<lparr>m1 = [a, b], m2 = [c, d], m3 = Some [e, f, g]\<rparr>
     = Math_round (real (10 * digit_val a + digit_val b) * 60
                   + real (10 * digit_val c + digit_val d)
                   + real (100 * digit_val e + 10 * digit_val f + digit_val g) / 1000)"
  by (simp add: timestamp_of_def parseInt10_two parseInt10_three padEnd_def slice_def)

lemma exec_all_match:
  "timeRegex_at (c # cs) = Some (m, r) \<Longrightarrow> exec_all (c # cs) = m # exec_all r"
  by simp

lemma exec_all_token:
  assumes "is_digit a" "is_digit b" "is_digit c" "is_digit d"
    and "timeRegex_tail t = Some (f, r)"
  shows "exec_all (pre @ 0x5B # a # b # 0x3A # c # d # t)
           = exec_all pre @ \<lparr>m1 = [a, b], m2 = [c, d], m3 = f\<rparr> # exec_all r"
proof -
  have "timeRegex_at (0x5B # a # b # 0x3A # c # d # t)
          = Some (\<lparr>m1 = [a, b], m2 = [c, d], m3 = f\<rparr>, r)"
    using assms by (rule timeRegex_at_token)
  then have "exec_all (0x5B # a # b # 0x3A # c # d # t)
               = \<lparr>m1 = [a, b], m2 = [c, d], m3 = f\<rparr> # exec_all r"
    by (rule exec_all_match)
  then show ?thesis
    by (simp only: exec_all_append)
qed

lemma replace_timeRegex_token:
  assumes "is_digit a" "is_digit b" "is_digit c" "is_digit d"
    and "timeRegex_tail t = Some (f, r)"
  shows "replace_timeRegex (pre @ 0x5B # a # b # 0x3A # c # d # t)
           = replace_timeRegex pre @ replace_timeRegex r"
proof -
  have "timeRegex_at (0x5B # a # b # 0x3A # c # d # t)
          = Some (\<lparr>m1 = [a, b], m2 = [c, d], m3 = f\<rparr>, r)"
    using assms by (rule timeRegex_at_token)
  then have "replace_timeRegex (0x5B # a # b # 0x3A # c # d # t) = replace_timeRegex r"
    by simp
  then show ?thesis
    by (simp only: replace_timeRegex_append)
qed

subsection \<open>Blank lines have no match\<close>

lemma trim_eq_Nil_iff: "trim s = [] \<longleftrightarrow> (\<forall>c \<in> set s. is_space c)"
proof -
  have "trim s = [] \<longleftrightarrow> (\<forall>c \<in> set (dropWhile is_space s). is_space c)"
    by (simp add: trim_def dropWhile_eq_Nil_conv)
  also have "\<dots> \<longleftrightarrow> dropWhile is_space s = []"
  proof
    assume h: "\<forall>c \<in> set (dropWhile is_space s). is_space c"
    show "dropWhile is_space s = []"
    proof (rule ccontr)
      assume ne: "dropWhile is_space s \<noteq> []"
      then have "\<not> is_space (hd (dropWhile is_space s))"
        by (rule hd_dropWhile)
      moreover have "hd (dropWhile is_space s) \<in> set (dropWhile is_space s)"
        using ne by simp
      ultimately show False using h by blast
    qed
  next
    assume e: "dropWhile is_space s = []"
    show "\<forall>c \<in> set (dropWhile is_space s). is_space c"
      unfolding e by simp
  qed
  also have "\<dots> \<longleftrightarrow> (\<forall>c \<in> set s. is_space c)"
    by (simp add: dropWhile_eq_Nil_conv)
  finally show ?thesis .
qed

lemma exec_all_no_bracket: "0x5B \<notin> set s \<Longrightarrow> exec_all s = []"
  by (induction s) (simp_all add: timeRegex_at_not_bracket)

lemma exec_all_blank: "trim s = [] \<Longrightarrow> exec_all s = []"
proof (rule exec_all_no_bracket)
  assume "trim s = []"
  then have "\<forall>c \<in> set s. is_space c"
    by (simp add: trim_eq_Nil_iff)
  moreover have "\<not> is_space 0x5B"
    by (simp add: is_space_def)
  ultimately show "0x5B \<notin> set s" by blast
qed

lemma line_entries_times:
  "\<not> is_metadata line \<Longrightarrow> map time (line_entries line) = map timestamp_of (exec_all line)"
  by (simp add: line_entries_def exec_all_blank comp_def)

subsection \<open>The tokens of the specification are matched, with the time it gives\<close>

lemma unat_digit_char: "d < 10 \<Longrightarrow> unat (digit_char d) = 48 + d"
  by (rule of_nat_inverse) (simp_all add: digit_char_def)

lemma is_digit_digit_char: "d < 10 \<Longrightarrow> is_digit (digit_char d)"
  by (simp add: is_digit_def word_le_nat_alt unat_digit_char)

lemma digit_val_digit_char: "d < 10 \<Longrightarrow> digit_val (digit_char d) = d"
  by (simp add: digit_val_def unat_digit_char)

lemma two_digits_bounds: "n < 100 \<Longrightarrow> n div 10 < 10 \<and> n mod 10 < (10::nat)"
  by arith

lemma three_digits_bounds:
  "n < 1000 \<Longrightarrow> n div 100 < 10 \<and> n div 10 mod 10 < 10 \<and> n mod 10 < (10::nat)"
  by arith

lemma timeRegex_tail_fraction:
  assumes "wf_fraction fr"
  shows "timeRegex_tail (fraction_text fr @ 0x5D # r) = Some (spec_capture fr, r)"
proof (cases fr)
  case NoFraction
  then show ?thesis by (simp add: timeRegex_tail_0)
next
  case (TwoDigits p ff)
  with assms have "is_sep p" and "ff div 10 < 10" and "ff mod 10 < 10"
    using two_digits_bounds [of ff] by simp_all
  then have "timeRegex_tail (p # digit_char (ff div 10) # digit_char (ff mod 10) # 0x5D # r)
               = Some (Some [digit_char (ff div 10), digit_char (ff mod 10)], r)"
    by (intro timeRegex_tail_2 is_digit_digit_char)
  then show ?thesis
    using TwoDigits by (simp add: two_digits_def)
next
  case (ThreeDigits p fff)
  with assms have "is_sep p" and "fff div 100 < 10" and "fff div 10 mod 10 < 10"
    and "fff mod 10 < 10"
    using three_digits_bounds [of fff] by simp_all
  then have "timeRegex_tail (p # digit_char (fff div 100) # digit_char (fff div 10 mod 10) #
               digit_char (fff mod 10) # 0x5D # r)
             = Some (Some [digit_char (fff div 100), digit_char (fff div 10 mod 10),
                           digit_char (fff mod 10)], r)"
    by (intro timeRegex_tail_3 is_digit_digit_char)
  then show ?thesis
    using ThreeDigits by (simp add: three_digits_def)
qed

lemma timeRegex_at_spec_token:
  assumes "MM < 100" "SS < 100" "wf_fraction fr"
  shows "timeRegex_at (spec_token MM SS fr @ r)
           = Some (\<lparr>m1 = two_digits MM, m2 = two_digits SS, m3 = spec_capture fr\<rparr>, r)"
proof -
  have "timeRegex_at (0x5B # digit_char (MM div 10) # digit_char (MM mod 10) # 0x3A #
          digit_char (SS div 10) # digit_char (SS mod 10) # (fraction_text fr @ 0x5D # r))
        = Some (\<lparr>m1 = [digit_char (MM div 10), digit_char (MM mod 10)],
                  m2 = [digit_char (SS div 10), digit_char (SS mod 10)],
                  m3 = spec_capture fr\<rparr>, r)"
    using assms two_digits_bounds [of MM] two_digits_bounds [of SS]
    by (intro timeRegex_at_token is_digit_digit_char timeRegex_tail_fraction) simp_all
  then show ?thesis
    by (simp add: spec_token_def two_digits_def)
qed

lemma parseInt10_two_digits:
  assumes "n < 100"
  shows "parseInt10 (two_digits n) = n"
proof -
  have "parseInt10 (two_digits n) = 10 * (n div 10) + n mod 10"
    using two_digits_bounds [OF assms]
    by (simp add: two_digits_def parseInt10_two digit_val_digit_char)
  then show ?thesis by simp
qed

lemma parseInt10_three_digits:
  assumes "n < 1000"
  shows "parseInt10 (three_digits n) = n"
proof -
  have "parseInt10 (three_digits n) = 100 * (n div 100) + 10 * (n div 10 mod 10) + n mod 10"
    using three_digits_bounds [OF assms]
    by (simp add: three_digits_def parseInt10_three digit_val_digit_char)
  also have "\<dots> = 100 * (n div 100) + n mod (10 * 10)"
    by (simp only: mod_mult2_eq [of n 10 10] add.assoc)
  also have "\<dots> = n"
    by simp
  finally show ?thesis .
qed

lemma parseInt10_padded:
  "parseInt10 (slice (padEnd [a, b] 3 0x30) 0 3) = 10 * parseInt10 [a, b]"
  by (simp add: padEnd_def slice_def parseInt10_two parseInt10_three digit_val_def)

lemma slice_three: "slice (padEnd [a, b, c] 3 0x30) 0 3 = [a, b, c]"
  by (simp add: padEnd_def slice_def)

lemma milliseconds_spec:
  assumes "wf_fraction fr"
  shows "(case spec_capture fr of
            Some f \<Rightarrow> if f \<noteq> [] then parseInt10 (slice (padEnd f 3 0x30) 0 3) else 0
          | None \<Rightarrow> 0) = spec_ms fr"
proof (cases fr)
  case NoFraction
  then show ?thesis by simp
next
  case (TwoDigits p ff)
  with assms have "ff < 100" by simp
  then have "parseInt10 (slice (padEnd (two_digits ff) 3 0x30) 0 3) = 10 * ff"
    unfolding two_digits_def parseInt10_padded
    by (simp only: parseInt10_two_digits [unfolded two_digits_def])
  then show ?thesis
    using TwoDigits by (simp add: two_digits_def)
next
  case (ThreeDigits p fff)
  with assms have "fff < 1000" by simp
  then have "parseInt10 (slice (padEnd (three_digits fff) 3 0x30) 0 3) = fff"
    unfolding three_digits_def slice_three
    by (simp only: parseInt10_three_digits [unfolded three_digits_def])
  then show ?thesis
    using ThreeDigits by (simp add: three_digits_def)
qed

lemma spec_ms_less: "wf_fraction fr \<Longrightarrow> spec_ms fr < 1000"
  by (cases fr) simp_all

lemma timestamp_of_spec_token:
  assumes "MM < 100" "SS < 100" "wf_fraction fr"
  shows "timestamp_of \<lparr>m1 = two_digits MM, m2 = two_digits SS, m3 = spec_capture fr\<rparr>
           = Math_round (real MM * 60 + real SS + real (spec_ms fr) / 1000)"
  using assms by (simp add: timestamp_of_def parseInt10_two_digits milliseconds_spec)


lemma round_div:
  assumes "ms < 1000"
  shows "(n * 1000 + ms + 500) div 1000 = n + (if 500 \<le> ms then 1 else (0::nat))"
proof -
  have "(n * 1000 + ms + 500) div 1000 = n + (ms + 500) div 1000"
    by (simp add: add.assoc)
  moreover have "(ms + 500) div 1000 = (if 500 \<le> ms then 1 else 0)"
    using assms by (auto simp: div_nat_eqI)
  ultimately show ?thesis by simp
qed

lemma Math_round_spec_time:
  assumes "wf_fraction fr"
  shows "Math_round (real MM * 60 + real SS + real (spec_ms fr) / 1000) = spec_time MM SS fr"
proof -
  have "spec_ms fr < 1000"
    using assms by (rule spec_ms_less)
  then have "Math_round (real MM * 60 + real SS + real (spec_ms fr) / 1000)
               = int (MM * 60 + SS) + (if 500 \<le> spec_ms fr then 1 else 0)"
    by (rule Math_round_seconds)
  also have "\<dots> = int ((MM * 60 + SS) + (if 500 \<le> spec_ms fr then 1 else 0))"
    by simp
  also have "\<dots> = spec_time MM SS fr"
    unfolding spec_time_def using round_div [OF \<open>spec_ms fr < 1000\<close>, of "MM * 60 + SS"]
    by (simp only:)
  finally show ?thesis .
qed

lemma spec_token_Cons:
  "spec_token MM SS fr @ rest
     = 0x5B # (two_digits MM @ [0x3A] @ two_digits SS @ fraction_text fr @ [0x5D]) @ rest"
  by (simp add: spec_token_def)

lemma exec_all_spec_token:
  assumes "MM < 100" "SS < 100" "wf_fraction fr"
  shows "exec_all (pre @ spec_token MM SS fr @ rest)
           = exec_all pre
             @ \<lparr>m1 = two_digits MM, m2 = two_digits SS, m3 = spec_capture fr\<rparr> # exec_all rest"
proof -
  have "timeRegex_at (spec_token MM SS fr @ rest)
          = Some (\<lparr>m1 = two_digits MM, m2 = two_digits SS, m3 = spec_capture fr\<rparr>, rest)"
    using assms by (rule timeRegex_at_spec_token)
  then have "exec_all (spec_token MM SS fr @ rest)
          = \<lparr>m1 = two_digits MM, m2 = two_digits SS, m3 = spec_capture fr\<rparr> # exec_all rest"
    unfolding spec_token_Cons by (rule exec_all_match)
  moreover have "exec_all (pre @ spec_token MM SS fr @ rest)
          = exec_all pre @ exec_all (spec_token MM SS fr @ rest)"
    unfolding spec_token_Cons by (rule exec_all_append)
  ultimately show ?thesis by simp
qed

lemma replace_timeRegex_spec_token:
  assumes "MM < 100" "SS < 100" "wf_fraction fr"
  shows "replace_timeRegex (pre @ spec_token MM SS fr @ rest)
           = replace_timeRegex pre @ replace_timeRegex rest"
proof -
  have "timeRegex_at (spec_token MM SS fr @ rest)
          = Some (\<lparr>m1 = two_digits MM, m2 = two_digits SS, m3 = spec_capture fr\<rparr>, rest)"
    using assms by (rule timeRegex_at_spec_token)
  then have "replace_timeRegex (spec_token MM SS fr @ rest) = replace_timeRegex rest"
    unfolding spec_token_Cons by simp
  moreover have "replace_timeRegex (pre @ spec_token MM SS fr @ rest)
          = replace_timeRegex pre @ replace_timeRegex (spec_token MM SS fr @ rest)"
    unfolding spec_token_Cons by (rule replace_timeRegex_append)
  ultimately show ?thesis by simp
qed

subsection \<open>A fraction of one digit is not matched\<close>

lemma exec_all_skip: "c \<noteq> 0x5B \<Longrightarrow> exec_all (c # s) = exec_all s"
  by (simp add: timeRegex_at_not_bracket)

lemma timeRegex_tail_one_digit:
  assumes "is_sep p"
  shows "timeRegex_tail (p # e # 0x5D # rest) = None"
proof (cases "timeRegex_tail (p # e # 0x5D # rest)")
  case None
  then show ?thesis .
next
  case (Some fr)
  obtain f r where "fr = (f, r)" by (cases fr)
  with Some have "timeRegex_tail (p # e # 0x5D # rest) = Some (f, r)" by simp
  moreover have "\<not> is_digit 0x5D" and "p \<noteq> 0x5D"
    using assms by (auto simp: is_digit_def is_sep_def)
  ultimately have False
    by (auto dest!: timeRegex_tail_SomeD)
  then show ?thesis ..
qed

lemma exec_all_one_digit_token:
  assumes "MM < 100" "SS < 100" "is_sep p" "d < 10"
  shows "timeRegex_at (one_digit_token MM SS p d @ rest) = None"
    and "exec_all (one_digit_token MM SS p d @ rest) = exec_all rest"
proof -
  let ?a = "digit_char (MM div 10)" and ?b = "digit_char (MM mod 10)"
  let ?c = "digit_char (SS div 10)" and ?d = "digit_char (SS mod 10)"
  let ?e = "digit_char d"
  have dg: "is_digit ?a" "is_digit ?b" "is_digit ?c" "is_digit ?d" "is_digit ?e"
    using assms two_digits_bounds [of MM] two_digits_bounds [of SS]
    by (simp_all add: is_digit_digit_char)
  have tok: "one_digit_token MM SS p d @ rest
               = 0x5B # ?a # ?b # 0x3A # ?c # ?d # p # ?e # 0x5D # rest"
    by (simp add: one_digit_token_def two_digits_def)
  show none: "timeRegex_at (one_digit_token MM SS p d @ rest) = None"
    unfolding tok using timeRegex_tail_one_digit [OF assms(3)] by simp
  have nb: "?a \<noteq> 0x5B" "?b \<noteq> 0x5B" "?c \<noteq> 0x5B" "?d \<noteq> 0x5B" "?e \<noteq> 0x5B" "p \<noteq> 0x5B"
    using dg assms(3) is_digit_neq is_sep_neq by blast+
  have "exec_all (one_digit_token MM SS p d @ rest)
          = exec_all (?a # ?b # 0x3A # ?c # ?d # p # ?e # 0x5D # rest)"
    using none unfolding tok by simp
  also have "\<dots> = exec_all rest"
    using nb by (simp add: timeRegex_at_not_bracket)
  finally show "exec_all (one_digit_token MM SS p d @ rest) = exec_all rest" .
qed

lemma line_entries_matches:
  assumes "\<not> is_metadata line"
  shows "line_entries line
           = map (\<lambda>m. \<lparr>time = timestamp_of m, text' = line_text line\<rparr>) (exec_all line)"
  using assms by (simp add: line_entries_def exec_all_blank comp_def)

section \<open>Evaluation on concrete inputs\<close>

lemmas parse_defs =
  parseLRC_def lyrics_of_def line_entries_def line_text_def is_metadata_def metadata_tags_def
  starts_with_ci_def upper_def trim_def is_space_def timestamp_of_def timeRegex_tail_def
  is_digit_def is_sep_def parseInt10_def digit_val_def padEnd_def slice_def Math_round_def
  ascii_def dots_def music_note_def

lemmas loader_defs =
  getLyrics_def loadLRC_def catch_block_def cache_get_def has_positive_length_def table_lines_def
  lrcLoader_def new_LRCLoader_def Object_prototype_def

section \<open>Properties of parseLRC\<close>

lemma sort_key_eq_Nil_iff: "sort_key f xs = [] \<longleftrightarrow> xs = []"
proof -
  have "sort_key f xs = [] \<longleftrightarrow> length (sort_key f xs) = 0"
    by (simp only: length_0_conv)
  then show ?thesis by simp
qed

text \<open>
  C1. For every input, the times of the sequence returned by \<open>parseLRC\<close> never
  decrease, and the sort is stable: for each time \<open>t\<close>, the returned entries with time
  \<open>t\<close> are the entries with time \<open>t\<close> in the order the loop pushed them
  (\<open>lyrics_of\<close>: line by line, and within a line timestamp by timestamp), preceded by
  the note entry when \<open>t = 0\<close> and the note was put in front (the result is then longer
  than the list of pushed entries, and no pushed entry has time 0).
\<close>

theorem parseLRC_sorted_stable:
  "sorted (map time (parseLRC s)) \<and>
   (\<forall>t. filter (\<lambda>e. time e = t) (parseLRC s) =
      (if t = 0 \<and> length (lyrics_of s) < length (parseLRC s)
       then [\<lparr>time = 0, text' = music_note\<rparr>] else [])
      @ filter (\<lambda>e. time e = t) (lyrics_of s))"
proof -
  let ?xs = "sort_key time (lyrics_of s)"
  have srt: "sorted (map time ?xs)"
    by (rule sorted_sort_key)
  have stable: "filter (\<lambda>e. time e = t) ?xs = filter (\<lambda>e. time e = t) (lyrics_of s)" for t
    by (rule sort_key_stable)
  show ?thesis
  proof (cases "length ?xs > 0 \<and> time (?xs ! 0) > 2")
    case False
    then have "parseLRC s = ?xs"
      by (auto simp: parseLRC_def Let_def sort_key_eq_Nil_iff)
    then show ?thesis
      using srt stable by simp
  next
    case True
    then have p: "parseLRC s = \<lparr>time = 0, text' = music_note\<rparr> # ?xs"
      by (simp add: parseLRC_def Let_def sort_key_eq_Nil_iff)
    have late: "\<forall>e \<in> set ?xs. 2 < time e"
    proof
      fix e
      assume "e \<in> set ?xs"
      then have "\<exists>i < length ?xs. ?xs ! i = e"
        by (simp only: in_set_conv_nth)
      then obtain i where i: "i < length ?xs" "?xs ! i = e"
        by blast
      have "map time ?xs ! 0 \<le> map time ?xs ! i"
        using srt i(1) by (intro sorted_nth_mono) simp_all
      then show "2 < time e"
        using True i by simp
    qed
    have none0: "filter (\<lambda>e. time e = 0) ?xs = []"
      unfolding filter_empty_conv using late by fastforce
    have "\<forall>e \<in> set ?xs. 0 \<le> time e"
      using late by fastforce
    then have "sorted (map time (parseLRC s))"
      using srt by (simp add: p)
    moreover have "filter (\<lambda>e. time e = t) (parseLRC s) =
      (if t = 0 \<and> length (lyrics_of s) < length (parseLRC s)
       then [\<lparr>time = 0, text' = music_note\<rparr>] else [])
      @ filter (\<lambda>e. time e = t) (lyrics_of s)" for t
    proof (cases "t = 0")
      case True
      then show ?thesis
        using none0 stable [of 0] by (simp add: p)
    next
      case False
      then show ?thesis
        using stable [of t] by (simp add: p)
    qed
    ultimately show ?thesis by blast
  qed
qed

theorem parseLRC_sorted_stable_witness:
  "sorted (map time (parseLRC (ascii ''[00:03]b\<newline>[00:01]a\<newline>[00:03]c''))) \<and>
   filter (\<lambda>e. time e = 3) (parseLRC (ascii ''[00:03]b\<newline>[00:01]a\<newline>[00:03]c''))
     = [\<lparr>time = 3, text' = ascii ''b''\<rparr>, \<lparr>time = 3, text' = ascii ''c''\<rparr>]"
proof -
  have l: "lyrics_of (ascii ''[00:03]b\<newline>[00:01]a\<newline>[00:03]c'')
             = [\<lparr>time = 3, text' = ascii ''b''\<rparr>, \<lparr>time = 1, text' = ascii ''a''\<rparr>,
                \<lparr>time = 3, text' = ascii ''c''\<rparr>]"
    by (simp add: parse_defs)
  show ?thesis
    using parseLRC_sorted_stable [of "ascii ''[00:03]b\<newline>[00:01]a\<newline>[00:03]c''"]
    by (simp add: l)
qed

text \<open>
  C2, as stated, fails in its last part: \<open>parseLRC("[00:05.50]Hello")\<close> does not return
  the single entry at time 6. The first time, 6, is above 2, so the note entry at time 0
  is put in front and two entries are returned.
\<close>

theorem parseLRC_single_entry_counterexample:
  "parseLRC (ascii ''[00:05.50]Hello'')
     = [\<lparr>time = 0, text' = music_note\<rparr>, \<lparr>time = 6, text' = ascii ''Hello''\<rparr>] \<and>
   parseLRC (ascii ''[00:05.50]Hello'') \<noteq> [\<lparr>time = 6, text' = ascii ''Hello''\<rparr>]"
  by (simp add: parse_defs)

text \<open>
  C2, amended. Take a token written as the specification writes it, \<open>[MM:SS]\<close>,
  \<open>[MM:SS.ff]\<close> or \<open>[MM:SS.fff]\<close> with \<open>.\<close> or \<open>:\<close> before the fraction, anywhere in a
  line that is not a metadata line. The line pushes one entry for it, between the
  entries of what precedes and what follows it, and the time of that entry is
  \<open>spec_time\<close>: \<open>MM * 60 + SS + ms / 1000\<close> rounded to the nearest integer, a half going
  up (the integer \<open>n\<close> with \<open>n - 1/2 \<le> x < n + 1/2\<close>), where \<open>ms\<close> is ten times a
  two-digit fraction (\<open>.50\<close> is 500 ms, \<open>.05\<close> is 50 ms) and a three-digit fraction
  itself. In particular the line \<open>[00:05.50]Hello\<close> pushes the single entry at time 6
  with text \<open>Hello\<close>, and \<open>parseLRC\<close> returns it after the note entry at time 0.
\<close>

theorem timestamp_entry_time:
  assumes "MM < 100" and "SS < 100" and "wf_fraction fr"
    and "\<not> is_metadata (pre @ spec_token MM SS fr @ rest)"
  shows "map time (line_entries (pre @ spec_token MM SS fr @ rest))
           = map timestamp_of (exec_all pre) @ spec_time MM SS fr # map timestamp_of (exec_all rest) \<and>
         real_of_int (spec_time MM SS fr) - 1 / 2
           \<le> real MM * 60 + real SS + real (spec_ms fr) / 1000 \<and>
         real MM * 60 + real SS + real (spec_ms fr) / 1000
           < real_of_int (spec_time MM SS fr) + 1 / 2 \<and>
         line_entries (ascii ''[00:05.50]Hello'') = [\<lparr>time = 6, text' = ascii ''Hello''\<rparr>] \<and>
         parseLRC (ascii ''[00:05.50]Hello'')
           = [\<lparr>time = 0, text' = music_note\<rparr>, \<lparr>time = 6, text' = ascii ''Hello''\<rparr>]"
proof -
  let ?m = "\<lparr>m1 = two_digits MM, m2 = two_digits SS, m3 = spec_capture fr\<rparr>"
  let ?x = "real MM * 60 + real SS + real (spec_ms fr) / 1000"
  have t: "timestamp_of ?m = spec_time MM SS fr"
    using assms(1-3) by (simp add: timestamp_of_spec_token Math_round_spec_time)
  have "map time (line_entries (pre @ spec_token MM SS fr @ rest))
          = map timestamp_of (exec_all (pre @ spec_token MM SS fr @ rest))"
    using assms(4) by (rule line_entries_times)
  also have "\<dots> = map timestamp_of (exec_all pre @ ?m # exec_all rest)"
    using assms(1-3) by (simp only: exec_all_spec_token)
  finally have a: "map time (line_entries (pre @ spec_token MM SS fr @ rest))
      = map timestamp_of (exec_all pre) @ spec_time MM SS fr # map timestamp_of (exec_all rest)"
    by (simp add: t)
  have "Math_round ?x = spec_time MM SS fr"
    using assms(3) by (rule Math_round_spec_time)
  then have b: "real_of_int (spec_time MM SS fr) - 1 / 2 \<le> ?x \<and>
                ?x < real_of_int (spec_time MM SS fr) + 1 / 2"
    by (simp only: Math_round_nearest)
  have c: "line_entries (ascii ''[00:05.50]Hello'') = [\<lparr>time = 6, text' = ascii ''Hello''\<rparr>]"
    by (simp add: parse_defs)
  have d: "parseLRC (ascii ''[00:05.50]Hello'')
           = [\<lparr>time = 0, text' = music_note\<rparr>, \<lparr>time = 6, text' = ascii ''Hello''\<rparr>]"
    by (simp add: parse_defs)
  from a b c d show ?thesis by blast
qed

theorem timestamp_entry_time_witness:
  "map time (line_entries (ascii ''[00:05.50]Hello'')) = [6] \<and>
   map time (line_entries (ascii ''[02:03:049] x'')) = [123] \<and>
   map time (line_entries (ascii ''[59:59]'')) = [3599]"
proof -
  have s1: "spec_token 0 5 (TwoDigits 0x2E 50) = ascii ''[00:05.50]''"
    by (simp add: spec_token_def two_digits_def digit_char_def ascii_def)
  have s2: "spec_token 2 3 (ThreeDigits 0x3A 49) = ascii ''[02:03:049]''"
    by (simp add: spec_token_def three_digits_def two_digits_def digit_char_def ascii_def)
  have s3: "spec_token 59 59 NoFraction = ascii ''[59:59]''"
    by (simp add: spec_token_def two_digits_def digit_char_def ascii_def)
  have n1: "\<not> is_metadata ([] @ spec_token 0 5 (TwoDigits 0x2E 50) @ ascii ''Hello'')"
    unfolding s1 by (simp add: parse_defs)
  have n2: "\<not> is_metadata ([] @ spec_token 2 3 (ThreeDigits 0x3A 49) @ ascii '' x'')"
    unfolding s2 by (simp add: parse_defs)
  have n3: "\<not> is_metadata ([] @ spec_token 59 59 NoFraction @ [])"
    unfolding s3 by (simp add: parse_defs)
  have e: "exec_all (ascii ''Hello'') = []" "exec_all (ascii '' x'') = []"
    by (simp_all add: ascii_def)
  have w: "wf_fraction (TwoDigits 0x2E 50)" "wf_fraction (ThreeDigits 0x3A 49)"
    "wf_fraction NoFraction"
    by (simp_all add: is_sep_def)
  show ?thesis
    using timestamp_entry_time [OF _ _ w(1) n1] timestamp_entry_time [OF _ _ w(2) n2]
      timestamp_entry_time [OF _ _ w(3) n3] e
    by (simp add: s1 s2 s3 spec_time_def ascii_def)
qed

text \<open>
  C3, as stated, fails: the pattern asks for two or three digits after the separator, so
  \<open>[00:05.5]\<close> is not a timestamp; the line \<open>[00:05.5]Hello\<close> has no match, pushes no
  entry, and \<open>parseLRC\<close> returns the empty sequence for it.
\<close>

theorem single_digit_fraction_counterexample:
  "exec_all (ascii ''[00:05.5]Hello'') = [] \<and>
   line_entries (ascii ''[00:05.5]Hello'') = [] \<and>
   parseLRC (ascii ''[00:05.5]Hello'') = []"
  by (simp add: parse_defs)

text \<open>
  C3, amended. A token whose fraction is a single digit is never matched: there is no
  match at its opening bracket, and a line that contains it has exactly the matches of
  what precedes it followed by the matches of what follows it, so no entry is pushed
  for it. The padding step alone would read a one-digit string as hundreds of
  milliseconds (\<open>5\<close> as 500), but no one-digit capture ever reaches it. The line
  \<open>[00:05.5]Hello\<close> pushes no entry.
\<close>

theorem single_digit_fraction_ignored:
  assumes "MM < 100" and "SS < 100" and "is_sep p" and "d < 10"
  shows "timeRegex_at (one_digit_token MM SS p d @ rest) = None \<and>
         exec_all (pre @ one_digit_token MM SS p d @ rest) = exec_all pre @ exec_all rest \<and>
         parseInt10 (slice (padEnd [digit_char d] 3 0x30) 0 3) = d * 100 \<and>
         line_entries (ascii ''[00:05.5]Hello'') = []"
proof -
  have a: "timeRegex_at (one_digit_token MM SS p d @ rest) = None"
    using assms by (rule exec_all_one_digit_token(1))
  have "exec_all (pre @ one_digit_token MM SS p d @ rest)
          = exec_all pre @ exec_all (one_digit_token MM SS p d @ rest)"
    unfolding one_digit_token_def append_Cons append_Nil by (rule exec_all_append)
  then have b: "exec_all (pre @ one_digit_token MM SS p d @ rest) = exec_all pre @ exec_all rest"
    using assms by (simp only: exec_all_one_digit_token(2))
  have "slice (padEnd [digit_char d] 3 0x30) 0 3 = [digit_char d, 0x30, 0x30]"
    by (simp add: padEnd_def slice_def numeral_2_eq_2)
  moreover have "digit_val 0x30 = 0"
    by (simp add: digit_val_def)
  ultimately have c: "parseInt10 (slice (padEnd [digit_char d] 3 0x30) 0 3) = d * 100"
    using assms(4) by (simp add: parseInt10_three digit_val_digit_char)
  have e: "line_entries (ascii ''[00:05.5]Hello'') = []"
    by (simp add: parse_defs)
  from a b c e show ?thesis by blast
qed

theorem single_digit_fraction_ignored_witness:
  "timeRegex_at (ascii ''[00:05.5]Hello'') = None \<and>
   exec_all (ascii ''[00:01]a [00:05.5]Hello'') = exec_all (ascii ''[00:01]a '') @ exec_all (ascii ''Hello'') \<and>
   parseInt10 (slice (padEnd (ascii ''5'') 3 0x30) 0 3) = 500"
proof -
  have t: "one_digit_token 0 5 0x2E 5 = ascii ''[00:05.5]''"
    by (simp add: one_digit_token_def two_digits_def digit_char_def ascii_def)
  have d: "[digit_char 5] = ascii ''5''"
    by (simp add: digit_char_def ascii_def)
  have s: "is_sep 0x2E"
    by (simp add: is_sep_def)
  have "timeRegex_at (ascii ''[00:05.5]'' @ ascii ''Hello'') = None \<and>
        exec_all (ascii ''[00:01]a '' @ ascii ''[00:05.5]'' @ ascii ''Hello'')
          = exec_all (ascii ''[00:01]a '') @ exec_all (ascii ''Hello'') \<and>
        parseInt10 (slice (padEnd (ascii ''5'') 3 0x30) 0 3) = 5 * 100"
    using single_digit_fraction_ignored [OF _ _ s, of 0 5 5 "ascii ''Hello''" "ascii ''[00:01]a ''"]
    by (simp only: t d)
  then show ?thesis
    by (simp add: ascii_def)
qed

text \<open>
  C6. A line that is not a metadata line pushes one entry per match of the timestamp
  pattern, in the order of the matches, and every entry carries the same text, the text
  of the line: the line with all matches removed, then trimmed (or the placeholder when
  that is empty). Every token written as the specification writes it is one match,
  wherever it stands in the line, and is removed from the text. The line
  \<open>[00:01][00:03]Same\<close> pushes exactly the entries at times 1 and 3 with text \<open>Same\<close>,
  and \<open>parseLRC\<close> returns exactly these two.
\<close>

theorem line_entries_share_text:
  assumes "\<not> is_metadata line"
  shows "line_entries line
           = map (\<lambda>m. \<lparr>time = timestamp_of m, text' = line_text line\<rparr>) (exec_all line) \<and>
         length (line_entries line) = length (exec_all line) \<and>
         line_text line
           = (if trim (replace_timeRegex line) = [] then dots else trim (replace_timeRegex line)) \<and>
         (\<forall>MM SS fr pre rest.
            MM < 100 \<and> SS < 100 \<and> wf_fraction fr \<longrightarrow>
              length (exec_all (pre @ spec_token MM SS fr @ rest))
                = length (exec_all pre) + 1 + length (exec_all rest) \<and>
              replace_timeRegex (pre @ spec_token MM SS fr @ rest)
                = replace_timeRegex pre @ replace_timeRegex rest) \<and>
         line_entries (ascii ''[00:01][00:03]Same'')
           = [\<lparr>time = 1, text' = ascii ''Same''\<rparr>, \<lparr>time = 3, text' = ascii ''Same''\<rparr>] \<and>
         parseLRC (ascii ''[00:01][00:03]Same'')
           = [\<lparr>time = 1, text' = ascii ''Same''\<rparr>, \<lparr>time = 3, text' = ascii ''Same''\<rparr>]"
proof -
  have a: "line_entries line
           = map (\<lambda>m. \<lparr>time = timestamp_of m, text' = line_text line\<rparr>) (exec_all line)"
    using assms by (rule line_entries_matches)
  then have b: "length (line_entries line) = length (exec_all line)"
    by simp
  have c: "line_text line
           = (if trim (replace_timeRegex line) = [] then dots else trim (replace_timeRegex line))"
    by (simp add: line_text_def Let_def)
  have d: "\<forall>MM SS fr pre rest.
            MM < 100 \<and> SS < 100 \<and> wf_fraction fr \<longrightarrow>
              length (exec_all (pre @ spec_token MM SS fr @ rest))
                = length (exec_all pre) + 1 + length (exec_all rest) \<and>
              replace_timeRegex (pre @ spec_token MM SS fr @ rest)
                = replace_timeRegex pre @ replace_timeRegex rest"
    by (simp add: exec_all_spec_token replace_timeRegex_spec_token)
  have e: "line_entries (ascii ''[00:01][00:03]Same'')
           = [\<lparr>time = 1, text' = ascii ''Same''\<rparr>, \<lparr>time = 3, text' = ascii ''Same''\<rparr>]"
    by (simp add: parse_defs)
  have f: "parseLRC (ascii ''[00:01][00:03]Same'')
           = [\<lparr>time = 1, text' = ascii ''Same''\<rparr>, \<lparr>time = 3, text' = ascii ''Same''\<rparr>]"
    by (simp add: parse_defs)
  from a b c d e f show ?thesis by blast
qed

theorem line_entries_share_text_witness:
  "line_entries (ascii ''[00:07] la [01:10.25]'')
     = [\<lparr>time = 7, text' = ascii ''la''\<rparr>, \<lparr>time = 70, text' = ascii ''la''\<rparr>] \<and>
   length (exec_all (ascii ''[00:07] la [01:10.25]'')) = 2"
proof -
  have n: "\<not> is_metadata (ascii ''[00:07] la [01:10.25]'')"
    by (simp add: parse_defs)
  have x: "exec_all (ascii ''[00:07] la [01:10.25]'')
             = [\<lparr>m1 = ascii ''00'', m2 = ascii ''07'', m3 = None\<rparr>,
                \<lparr>m1 = ascii ''01'', m2 = ascii ''10'', m3 = Some (ascii ''25'')\<rparr>]"
    by (simp add: parse_defs)
  have t: "line_text (ascii ''[00:07] la [01:10.25]'') = ascii ''la''"
    by (simp add: parse_defs)
  show ?thesis
    using line_entries_share_text [OF n]
    by (simp add: x t) (simp add: parse_defs)
qed

text \<open>
  C7. When nothing but white space is left of a line after its timestamps are removed,
  every entry the line pushes carries the placeholder, three times \<open>U+2022\<close>. The line
  \<open>[00:10]\<close> pushes the single entry at time 10 with the placeholder as text; as
  that time is above 2, \<open>parseLRC\<close> of this one-line input returns it after the note
  entry.
\<close>

theorem empty_text_placeholder:
  assumes "trim (replace_timeRegex line) = []"
  shows "(\<forall>e \<in> set (line_entries line). text' e = dots) \<and>
         dots = [0x2022, 0x2022, 0x2022] \<and>
         line_entries (ascii ''[00:10]'') = [\<lparr>time = 10, text' = dots\<rparr>] \<and>
         parseLRC (ascii ''[00:10]'')
           = [\<lparr>time = 0, text' = music_note\<rparr>, \<lparr>time = 10, text' = dots\<rparr>]"
proof -
  have "line_text line = dots"
    using assms by (simp add: line_text_def)
  then have "\<forall>e \<in> set (line_entries line). text' e = dots"
    by (auto simp: line_entries_def)
  moreover have "line_entries (ascii ''[00:10]'') = [\<lparr>time = 10, text' = dots\<rparr>]"
    by (simp add: parse_defs)
  moreover have "parseLRC (ascii ''[00:10]'')
           = [\<lparr>time = 0, text' = music_note\<rparr>, \<lparr>time = 10, text' = dots\<rparr>]"
    by (simp add: parse_defs)
  ultimately show ?thesis
    by (simp add: dots_def)
qed

theorem empty_text_placeholder_witness:
  "map text' (line_entries (ascii '' [00:10] [00:20]  '')) = [dots, dots] \<and>
   map time (line_entries (ascii '' [00:10] [00:20]  '')) = [10, 20]"
proof -
  have r: "trim (replace_timeRegex (ascii '' [00:10] [00:20]  '')) = []"
    by (simp add: parse_defs)
  have t: "map time (line_entries (ascii '' [00:10] [00:20]  '')) = [10, 20]"
    by (simp add: parse_defs)
  then have l: "length (line_entries (ascii '' [00:10] [00:20]  '')) = 2"
    using length_map [of time "line_entries (ascii '' [00:10] [00:20]  '')"] by simp
  then obtain x y where xy: "line_entries (ascii '' [00:10] [00:20]  '') = [x, y]"
    by (auto simp: length_Suc_conv numeral_2_eq_2)
  show ?thesis
    using empty_text_placeholder [OF r] t by (simp add: xy)
qed

lemma sort_key_first_least:
  assumes "xs \<noteq> []"
  shows "2 < time (hd (sort_key time xs)) \<longleftrightarrow> (\<forall>e \<in> set xs. 2 < time e)"
proof -
  obtain y ys where ys: "sort_key time xs = y # ys"
    using assms by (cases "sort_key time xs") (simp_all add: sort_key_eq_Nil_iff)
  have "sorted (map time (y # ys))"
    unfolding ys [symmetric] by (rule sorted_sort_key)
  then have least: "\<forall>e \<in> set ys. time y \<le> time e"
    by simp
  have set: "set xs = insert y (set ys)"
    using set_sort [of time xs] by (simp add: ys)
  show ?thesis
    unfolding ys set using least by fastforce
qed

text \<open>
  C4. \<open>parseLRC\<close> returns the sorted entries with the note entry, time 0 and text
  \<open>U+266A\<close>, in front exactly when the sorted sequence is not empty and its first time
  is above 2, and the sorted entries alone otherwise; the first time is above 2 exactly
  when every pushed entry has a time above 2. The input \<open>[ar:Someone]\<close>, line feed,
  \<open>[00:05]Hi\<close> gives exactly two entries, the note entry and the entry at time 5 (the
  metadata line pushes nothing); an input whose earliest timestamp is \<open>[00:01]\<close> gets no
  note entry; the empty input gives the empty sequence.
\<close>

theorem parseLRC_leading_note:
  "parseLRC s =
     (if sort_key time (lyrics_of s) \<noteq> [] \<and> 2 < time (hd (sort_key time (lyrics_of s)))
      then \<lparr>time = 0, text' = music_note\<rparr> # sort_key time (lyrics_of s)
      else sort_key time (lyrics_of s)) \<and>
   (sort_key time (lyrics_of s) \<noteq> [] \<and> 2 < time (hd (sort_key time (lyrics_of s)))
      \<longleftrightarrow> lyrics_of s \<noteq> [] \<and> (\<forall>e \<in> set (lyrics_of s). 2 < time e)) \<and>
   music_note = [0x266A] \<and>
   parseLRC (ascii ''[ar:Someone]\<newline>[00:05]Hi'')
     = [\<lparr>time = 0, text' = music_note\<rparr>, \<lparr>time = 5, text' = ascii ''Hi''\<rparr>] \<and>
   parseLRC (ascii ''[00:01]Hi'') = [\<lparr>time = 1, text' = ascii ''Hi''\<rparr>] \<and>
   parseLRC [] = []"
proof -
  let ?xs = "sort_key time (lyrics_of s)"
  have a: "parseLRC s =
     (if ?xs \<noteq> [] \<and> 2 < time (hd ?xs) then \<lparr>time = 0, text' = music_note\<rparr> # ?xs else ?xs)"
    by (cases ?xs) (simp_all add: parseLRC_def Let_def)
  have b: "?xs \<noteq> [] \<and> 2 < time (hd ?xs)
      \<longleftrightarrow> lyrics_of s \<noteq> [] \<and> (\<forall>e \<in> set (lyrics_of s). 2 < time e)"
    using sort_key_first_least [of "lyrics_of s"] by (auto simp: sort_key_eq_Nil_iff)
  have c: "parseLRC (ascii ''[ar:Someone]\<newline>[00:05]Hi'')
     = [\<lparr>time = 0, text' = music_note\<rparr>, \<lparr>time = 5, text' = ascii ''Hi''\<rparr>]"
    by (simp add: parse_defs)
  have d: "parseLRC (ascii ''[00:01]Hi'') = [\<lparr>time = 1, text' = ascii ''Hi''\<rparr>]"
    by (simp add: parse_defs)
  have e: "parseLRC [] = []"
    by (simp add: parse_defs)
  from a b c d e show ?thesis
    by (simp only: music_note_def)
qed

theorem parseLRC_leading_note_witness:
  "parseLRC (ascii ''[00:09]b\<newline>[00:03]a'')
     = [\<lparr>time = 0, text' = music_note\<rparr>, \<lparr>time = 3, text' = ascii ''a''\<rparr>,
        \<lparr>time = 9, text' = ascii ''b''\<rparr>] \<and>
   parseLRC (ascii ''[00:09]b\<newline>[00:02]a'')
     = [\<lparr>time = 2, text' = ascii ''a''\<rparr>, \<lparr>time = 9, text' = ascii ''b''\<rparr>]"
proof -
  have l1: "lyrics_of (ascii ''[00:09]b\<newline>[00:03]a'')
              = [\<lparr>time = 9, text' = ascii ''b''\<rparr>, \<lparr>time = 3, text' = ascii ''a''\<rparr>]"
    by (simp add: parse_defs)
  have l2: "lyrics_of (ascii ''[00:09]b\<newline>[00:02]a'')
              = [\<lparr>time = 9, text' = ascii ''b''\<rparr>, \<lparr>time = 2, text' = ascii ''a''\<rparr>]"
    by (simp add: parse_defs)
  show ?thesis
    using parseLRC_leading_note [of "ascii ''[00:09]b\<newline>[00:03]a''"]
      parseLRC_leading_note [of "ascii ''[00:09]b\<newline>[00:02]a''"]
    by (simp add: l1 l2)
qed

section \<open>Properties of the loader\<close>

lemma loadLRC_state:
  "fst (snd (loadLRC fetch l k)) =
     (if cache_get l k = None then
        (case fetch (basePath l @ k @ ascii ''.lrc'') of
           OkText c \<Rightarrow>
             if parseLRC c \<noteq> [] then l\<lparr>cache := (cache l)(k \<mapsto> parseLRC c)\<rparr> else l
         | _ \<Rightarrow> l)
      else l)"
  by (auto simp: loadLRC_def catch_block_def Let_def
           split: option.splits fetch_outcome.splits thrown.splits)

lemma getLyrics_state:
  "fst (snd (getLyrics fetch lyricsData l (Some k))) =
     (if k = [] then l else fst (snd (loadLRC fetch l k)))"
  by (auto simp: getLyrics_def split: option.splits prod.splits promise_result.splits)

lemma cache_get_None_iff:
  "cache_get l k = None \<longleftrightarrow> cache l k = None \<and> Object_prototype k = None"
  by (simp add: cache_get_def split: option.splits)

text \<open>
  Invariant of the cache: every stored sequence is non-empty, and no key it is stored
  under is the name of a property inherited from \<open>Object.prototype\<close>.
\<close>

lemma loadLRC_preserves_invariant:
  assumes "\<forall>k xs. cache l k = Some xs \<longrightarrow> xs \<noteq> [] \<and> Object_prototype k = None"
  shows "\<forall>k xs. cache (fst (snd (loadLRC fetch l k'))) k = Some xs
           \<longrightarrow> xs \<noteq> [] \<and> Object_prototype k = None"
  using assms
  by (auto simp: loadLRC_state cache_get_None_iff split: fetch_outcome.splits if_splits)

lemma reachable_invariant:
  "reachable l \<Longrightarrow> \<forall>k xs. cache l k = Some xs \<longrightarrow> xs \<noteq> [] \<and> Object_prototype k = None"
proof (induction rule: reachable.induct)
  case (new bp)
  show ?case by (simp add: new_LRCLoader_def)
next
  case (loadLRC l fetch k)
  from loadLRC.IH show ?case by (rule loadLRC_preserves_invariant)
next
  case (getLyrics l fetch lyricsData key)
  have "fst (snd (getLyrics fetch lyricsData l key)) = l \<or>
        (\<exists>k. fst (snd (getLyrics fetch lyricsData l key)) = fst (snd (loadLRC fetch l k)))"
  proof (cases key)
    case None
    then show ?thesis by (simp add: getLyrics_def)
  next
    case (Some k)
    then show ?thesis by (cases "k = []") (auto simp: getLyrics_state)
  qed
  then show ?case
  proof
    assume "fst (snd (getLyrics fetch lyricsData l key)) = l"
    then show ?thesis using getLyrics.IH by (simp only:)
  next
    assume "\<exists>k. fst (snd (getLyrics fetch lyricsData l key)) = fst (snd (loadLRC fetch l k))"
    then obtain k where
      eq: "fst (snd (getLyrics fetch lyricsData l key)) = fst (snd (loadLRC fetch l k))" ..
    show ?thesis
      unfolding eq using getLyrics.IH by (rule loadLRC_preserves_invariant)
  qed
qed

lemma getLyrics_hit:
  assumes "cache l k = Some xs" and "xs \<noteq> []" and "k \<noteq> []"
  shows "getLyrics fetch lyricsData l (Some k) = (Resolved (Some (Lyrics xs)), l, [])"
  using assms by (simp add: getLyrics_def loadLRC_def cache_get_def has_positive_length_def)

lemma getLyrics_miss_success:
  assumes "k \<noteq> []" and "cache_get l k = None"
    and "fetch (basePath l @ k @ ascii ''.lrc'') = OkText c" and "parseLRC c \<noteq> []"
  shows "getLyrics fetch lyricsData l (Some k) =
           (Resolved (Some (Lyrics (parseLRC c))),
            l\<lparr>cache := (cache l)(k \<mapsto> parseLRC c)\<rparr>,
            [Fetch (basePath l @ k @ ascii ''.lrc''),
             ConsoleLog (LoadedLRC k (length (parseLRC c)))])"
  using assms by (simp add: getLyrics_def loadLRC_def Let_def has_positive_length_def)

lemma getLyrics_miss_fetches:
  assumes "k \<noteq> []" and "cache_get l k = None"
  shows "fetch_calls (snd (snd (getLyrics fetch lyricsData l (Some k)))) =
           [basePath l @ k @ ascii ''.lrc'']"
  using assms
  by (auto simp: getLyrics_def loadLRC_def catch_block_def Let_def has_positive_length_def
           split: fetch_outcome.splits option.splits thrown.splits)

text \<open>
  C9. \<open>getLyrics(null)\<close> and \<open>getLyrics("")\<close> return \<open>null\<close> at once: no fetch, no
  look-up in the fallback table and no log entry (the list of events is empty), and the
  loader, hence its cache, is the one the call started with.
\<close>

theorem getLyrics_falsy_key:
  "getLyrics fetch lyricsData l None = (Resolved None, l, []) \<and>
   getLyrics fetch lyricsData l (Some []) = (Resolved None, l, [])"
  by (simp add: getLyrics_def)

theorem getLyrics_falsy_key_witness:
  "getLyrics (\<lambda>url. OkText (ascii ''[00:01]la'')) (Some Map.empty) lrcLoader None
     = (Resolved None, lrcLoader, []) \<and>
   getLyrics (\<lambda>url. OkText (ascii ''[00:01]la'')) (Some Map.empty) lrcLoader (Some [])
     = (Resolved None, lrcLoader, [])"
  by (rule getLyrics_falsy_key)

text \<open>
  C10. The loader after any \<open>getLyrics\<close> call, on every path: it is the loader the call
  started with, except when the key is a non-empty string that reads as absent from the
  cache, the fetch answers with a text, and that text parses to a non-empty sequence;
  then the only change is that sequence stored under the key. In particular a result
  taken from the fallback table is never stored: the fallback table does not occur in
  the right-hand side.
\<close>

theorem getLyrics_cache_frame:
  "fst (snd (getLyrics fetch lyricsData l key)) =
     (case key of
        None \<Rightarrow> l
      | Some k \<Rightarrow>
          if k \<noteq> [] \<and> cache_get l k = None then
            (case fetch (basePath l @ k @ ascii ''.lrc'') of
               OkText c \<Rightarrow>
                 if parseLRC c \<noteq> [] then l\<lparr>cache := (cache l)(k \<mapsto> parseLRC c)\<rparr> else l
             | _ \<Rightarrow> l)
          else l)"
  by (auto simp: getLyrics_def loadLRC_def catch_block_def Let_def
           split: option.splits fetch_outcome.splits prod.splits thrown.splits
                  promise_result.splits)

theorem getLyrics_cache_frame_witness:
  "fst (snd (getLyrics (\<lambda>url. OkText (ascii ''[00:01]la'')) None lrcLoader (Some (ascii ''song''))))
     = lrcLoader\<lparr>cache := (cache lrcLoader)(ascii ''song'' \<mapsto> [\<lparr>time = 1, text' = ascii ''la''\<rparr>])\<rparr> \<and>
   fst (snd (getLyrics (\<lambda>url. NotOk)
       (Some [ascii ''song'' \<mapsto> \<lparr>lines = Some [\<lparr>time = 1, text' = ascii ''la''\<rparr>]\<rparr>])
       lrcLoader (Some (ascii ''song''))))
     = lrcLoader"
proof -
  have p: "parseLRC (ascii ''[00:01]la'') = [\<lparr>time = 1, text' = ascii ''la''\<rparr>]"
    by (simp add: parse_defs)
  have g: "cache_get lrcLoader (ascii ''song'') = None"
    by (simp add: cache_get_def lrcLoader_def new_LRCLoader_def Object_prototype_def ascii_def)
  show ?thesis
    using getLyrics_cache_frame [of "\<lambda>url. OkText (ascii ''[00:01]la'')" None lrcLoader
                                     "Some (ascii ''song'')"]
          getLyrics_cache_frame [of "\<lambda>url. NotOk"
             "Some [ascii ''song'' \<mapsto> \<lparr>lines = Some [\<lparr>time = 1, text' = ascii ''la''\<rparr>]\<rparr>]"
             lrcLoader "Some (ascii ''song'')"]
    by (simp add: p g) (simp add: ascii_def)
qed

text \<open>
  Let the key be a non-empty string that reads as absent from the cache, so that the
  primary path runs. If the response is not ok, if the fetch or the reading of the text
  is rejected with a value whose \<open>message\<close> can be read, or if the text parses to the
  empty sequence, then the promise of \<open>getLyrics\<close> is resolved: with the \<open>lines\<close> of the
  fallback table's entry for the key when the table, the entry and the field exist, and
  with \<open>null\<close> otherwise. The loader is unchanged, and the table is looked up exactly
  when it is defined.
\<close>

lemma getLyrics_fallback_when_caught:
  assumes "k \<noteq> []" and "cache_get l k = None"
    and "fetch (basePath l @ k @ ascii ''.lrc'') = FetchRejects ThrownReadable \<or>
         fetch (basePath l @ k @ ascii ''.lrc'') = NotOk \<or>
         fetch (basePath l @ k @ ascii ''.lrc'') = OkTextRejects ThrownReadable \<or>
         (\<exists>c. fetch (basePath l @ k @ ascii ''.lrc'') = OkText c \<and> parseLRC c = [])"
  shows "fst (getLyrics fetch lyricsData l (Some k)) =
           Resolved
             (case lyricsData of
                None \<Rightarrow> None
              | Some table \<Rightarrow>
                  (case table k of None \<Rightarrow> None | Some entry \<Rightarrow> map_option Lyrics (lines entry))) \<and>
         fst (snd (getLyrics fetch lyricsData l (Some k))) = l \<and>
         (FallbackLookup k \<in> set (snd (snd (getLyrics fetch lyricsData l (Some k))))
            \<longleftrightarrow> lyricsData \<noteq> None)"
  using assms
  by (auto simp: getLyrics_def loadLRC_def catch_block_def Let_def has_positive_length_def
                 table_lines_def
           split: option.splits)

text \<open>
  When the fetch, or the reading of the text, is rejected with a value whose \<open>message\<close>
  cannot be read, the promise of \<open>getLyrics\<close> is rejected, whatever the fallback table
  holds: the error thrown by the \<^verbatim>\<open>catch\<close> block leaves \<open>loadLRC\<close> and \<open>getLyrics\<close>, the
  table is not looked up and nothing is logged.
\<close>

lemma getLyrics_rejects_when_catch_throws:
  assumes "k \<noteq> []" and "cache_get l k = None"
    and "fetch (basePath l @ k @ ascii ''.lrc'') = FetchRejects ThrownNullish \<or>
         fetch (basePath l @ k @ ascii ''.lrc'') = OkTextRejects ThrownNullish"
  shows "getLyrics fetch lyricsData l (Some k)
           = (Rejected TypeError, l, [Fetch (basePath l @ k @ ascii ''.lrc'')])"
  using assms
  by (auto simp: getLyrics_def loadLRC_def catch_block_def Let_def)


text \<open>
  C5, as stated, fails: a first call for a key that no call has stored need not fetch.
  On a new loader, \<open>getLyrics("")\<close> returns \<open>null\<close> without a fetch (the guard on falsy
  keys), and \<open>getLyrics("constructor")\<close> finds the property inherited from
  \<open>Object.prototype\<close> in the cache object and returns that function, again without a
  fetch.
\<close>

theorem getLyrics_unstored_key_no_fetch:
  "cache lrcLoader [] = None \<and>
   getLyrics (\<lambda>url. OkText (ascii ''[00:01]la'')) None lrcLoader (Some [])
     = (Resolved None, lrcLoader, []) \<and>
   cache lrcLoader (ascii ''constructor'') = None \<and>
   getLyrics (\<lambda>url. OkText (ascii ''[00:01]la'')) None lrcLoader (Some (ascii ''constructor''))
     = (Resolved (Some (BuiltinFunction 1)), lrcLoader, [])"
  by (simp add: loader_defs ascii_def)

text \<open>
  C5, amended. In a loader state reached by calls of the loader, for a non-empty key:
  a sequence stored under the key is returned as it is, with no fetch and no other
  effect; for a key that is not the name of a property inherited from
  \<open>Object.prototype\<close>, the call makes no fetch exactly when a sequence is stored under
  the key, and makes one fetch, of base path, key and \<open>.lrc\<close>, when none is; and after a
  first call whose fetched text parses to a non-empty sequence, a second call for the
  key returns that same sequence without a fetch and leaves the loader as the first call
  left it, whatever the collaborators would answer then.
\<close>

theorem getLyrics_cached:
  assumes "reachable l" and "k \<noteq> []"
  shows "(\<forall>xs. cache l k = Some xs \<longrightarrow>
            getLyrics fetch lyricsData l (Some k) = (Resolved (Some (Lyrics xs)), l, [])) \<and>
         (Object_prototype k = None \<longrightarrow>
            (fetch_calls (snd (snd (getLyrics fetch lyricsData l (Some k)))) = []
               \<longleftrightarrow> cache l k \<noteq> None) \<and>
            (cache l k = None \<longrightarrow>
               fetch_calls (snd (snd (getLyrics fetch lyricsData l (Some k))))
                 = [basePath l @ k @ ascii ''.lrc''])) \<and>
         (\<forall>c. Object_prototype k = None \<and> cache l k = None \<and>
               fetch (basePath l @ k @ ascii ''.lrc'') = OkText c \<and> parseLRC c \<noteq> [] \<longrightarrow>
            fst (getLyrics fetch lyricsData l (Some k)) = Resolved (Some (Lyrics (parseLRC c))) \<and>
            getLyrics fetch' lyricsData' (fst (snd (getLyrics fetch lyricsData l (Some k)))) (Some k)
              = (Resolved (Some (Lyrics (parseLRC c))),
                 fst (snd (getLyrics fetch lyricsData l (Some k))), []))"
proof (intro conjI allI impI)
  fix xs
  assume stored: "cache l k = Some xs"
  with assms(1) have "xs \<noteq> []"
    using reachable_invariant by blast
  with stored show "getLyrics fetch lyricsData l (Some k) = (Resolved (Some (Lyrics xs)), l, [])"
    using assms(2) by (rule getLyrics_hit)
next
  assume proto: "Object_prototype k = None"
  show "fetch_calls (snd (snd (getLyrics fetch lyricsData l (Some k)))) = []
          \<longleftrightarrow> cache l k \<noteq> None"
  proof (cases "cache l k")
    case None
    with proto have "cache_get l k = None"
      by (simp add: cache_get_None_iff)
    with assms(2) None show ?thesis
      by (simp add: getLyrics_miss_fetches)
  next
    case (Some xs)
    with assms(1) have "xs \<noteq> []"
      using reachable_invariant by blast
    with Some assms(2) show ?thesis
      by (simp add: getLyrics_hit)
  qed
next
  assume "Object_prototype k = None" and "cache l k = None"
  then have "cache_get l k = None"
    by (simp add: cache_get_None_iff)
  with assms(2) show "fetch_calls (snd (snd (getLyrics fetch lyricsData l (Some k))))
                        = [basePath l @ k @ ascii ''.lrc'']"
    by (rule getLyrics_miss_fetches)
next
  fix c
  assume h: "Object_prototype k = None \<and> cache l k = None \<and>
             fetch (basePath l @ k @ ascii ''.lrc'') = OkText c \<and> parseLRC c \<noteq> []"
  then have miss: "cache_get l k = None"
    by (simp add: cache_get_None_iff)
  from h have first:
    "getLyrics fetch lyricsData l (Some k) =
       (Resolved (Some (Lyrics (parseLRC c))), l\<lparr>cache := (cache l)(k \<mapsto> parseLRC c)\<rparr>,
        [Fetch (basePath l @ k @ ascii ''.lrc''),
         ConsoleLog (LoadedLRC k (length (parseLRC c)))])"
    using getLyrics_miss_success [OF assms(2) miss] by blast
  show "fst (getLyrics fetch lyricsData l (Some k)) = Resolved (Some (Lyrics (parseLRC c)))"
    by (simp add: first)
  have "cache (l\<lparr>cache := (cache l)(k \<mapsto> parseLRC c)\<rparr>) k = Some (parseLRC c)"
    by simp
  moreover from h have "parseLRC c \<noteq> []"
    by blast
  ultimately have
    "getLyrics fetch' lyricsData' (l\<lparr>cache := (cache l)(k \<mapsto> parseLRC c)\<rparr>) (Some k)
       = (Resolved (Some (Lyrics (parseLRC c))), l\<lparr>cache := (cache l)(k \<mapsto> parseLRC c)\<rparr>, [])"
    using assms(2) by (rule getLyrics_hit)
  then show "getLyrics fetch' lyricsData'
               (fst (snd (getLyrics fetch lyricsData l (Some k)))) (Some k)
             = (Resolved (Some (Lyrics (parseLRC c))), fst (snd (getLyrics fetch lyricsData l (Some k))), [])"
    by (simp add: first)
qed

theorem getLyrics_cached_witness:
  "fetch_calls (snd (snd (getLyrics (\<lambda>url. OkText (ascii ''[00:01]la'')) None lrcLoader
      (Some (ascii ''song''))))) = [ascii ''./assets/lyrics/song.lrc''] \<and>
   fst (getLyrics (\<lambda>url. OkText (ascii ''[00:01]la'')) None lrcLoader (Some (ascii ''song'')))
     = Resolved (Some (Lyrics [\<lparr>time = 1, text' = ascii ''la''\<rparr>])) \<and>
   fst (getLyrics (\<lambda>url. NotOk) None
          (fst (snd (getLyrics (\<lambda>url. OkText (ascii ''[00:01]la'')) None lrcLoader
             (Some (ascii ''song'')))))
          (Some (ascii ''song'')))
     = Resolved (Some (Lyrics [\<lparr>time = 1, text' = ascii ''la''\<rparr>])) \<and>
   fetch_calls (snd (snd (getLyrics (\<lambda>url. NotOk) None
          (fst (snd (getLyrics (\<lambda>url. OkText (ascii ''[00:01]la'')) None lrcLoader
             (Some (ascii ''song'')))))
          (Some (ascii ''song''))))) = []"
proof -
  have r: "reachable lrcLoader"
    unfolding lrcLoader_def by (rule reachable.new)
  have k: "ascii ''song'' \<noteq> []"
    by (simp add: ascii_def)
  have o: "Object_prototype (ascii ''song'') = None"
    by (simp add: Object_prototype_def ascii_def)
  have c: "cache lrcLoader (ascii ''song'') = None"
    by (simp add: lrcLoader_def new_LRCLoader_def)
  have b: "basePath lrcLoader @ ascii ''song'' @ ascii ''.lrc'' = ascii ''./assets/lyrics/song.lrc''"
    by (simp add: lrcLoader_def new_LRCLoader_def ascii_def)
  have p: "parseLRC (ascii ''[00:01]la'') = [\<lparr>time = 1, text' = ascii ''la''\<rparr>]"
    by (simp add: parse_defs)
  show ?thesis
    using getLyrics_cached [OF r k, of "\<lambda>url. OkText (ascii ''[00:01]la'')" None
            "\<lambda>url. NotOk" None]
    by (simp add: o c b p)
qed

end
